theory Spec2Isabelle
  imports Main "HOL-Library.AList"
begin

section \<open>Python strings\<close>

text \<open>
  A Python \<^verbatim>\<open>str\<close> is modelled as a \<^typ>\<open>string\<close>: a list of characters whose code
  points lie below 256. The string methods used by \<^verbatim>\<open>utils/validate_versions.py\<close>
  are written out below with the argument order of the method call
  (\<^verbatim>\<open>s.startswith(p)\<close> is \<open>startswith s p\<close>).
\<close>

definition startswith :: "string \<Rightarrow> string \<Rightarrow> bool" where
  "startswith s p = (take (length p) s = p)"

text \<open>\<^verbatim>\<open>sub in s\<close> for two strings: \<open>sub\<close> occurs in \<open>s\<close> as a contiguous block.\<close>

fun str_contains :: "string \<Rightarrow> string \<Rightarrow> bool" where
  "str_contains [] sub = (sub = [])"
| "str_contains (c # cs) sub = (startswith (c # cs) sub \<or> str_contains cs sub)"

text \<open>
  \<^verbatim>\<open>s.replace(old, new)\<close>: one scan from the left, every occurrence found is replaced
  and the scan goes on behind it. With an empty \<open>old\<close> Python puts \<open>new\<close> before every
  character and at the end.
\<close>

function str_replace :: "string \<Rightarrow> string \<Rightarrow> string \<Rightarrow> string" where
  "str_replace [] old new = (if old = [] then new else [])"
| "str_replace (c # cs) old new =
     (if old = [] then new @ c # str_replace cs old new
      else if startswith (c # cs) old
        then new @ str_replace (drop (length old) (c # cs)) old new
      else c # str_replace cs old new)"
  by pat_completeness auto
termination
  by (relation "measure (\<lambda>(s, old, new). length s)") auto

text \<open>
  The characters that \<^verbatim>\<open>str.isspace\<close> accepts among the code points below 256:
  tab, line feed, vertical tab, form feed, carriage return, the four separators
  0x1C to 0x1F, the space, NEL (0x85) and the no-break space (0xA0).
\<close>

definition isspace :: "char \<Rightarrow> bool" where
  "isspace c = (c \<in> set [CHR 0x09, CHR 0x0A, CHR 0x0B, CHR 0x0C, CHR 0x0D,
     CHR 0x1C, CHR 0x1D, CHR 0x1E, CHR 0x1F, CHR 0x20, CHR 0x85, CHR 0xA0])"

definition strip :: "string \<Rightarrow> string" where
  "strip s = rev (dropWhile isspace (rev (dropWhile isspace s)))"

text \<open>
  \<^verbatim>\<open>s.split(sep)\<close> for a non-empty separator: the pieces between the occurrences
  found by one scan from the left. Python raises \<^verbatim>\<open>ValueError\<close> for an empty
  separator; \<open>str_split\<close> below adds that case.
\<close>

function split_parts :: "string \<Rightarrow> string \<Rightarrow> string list" where
  "split_parts [] sep = [[]]"
| "split_parts (c # cs) sep =
     (if sep \<noteq> [] \<and> startswith (c # cs) sep
        then [] # split_parts (drop (length sep) (c # cs)) sep
      else (case split_parts cs sep of
              [] \<Rightarrow> [[c]]
            | p # ps \<Rightarrow> (c # p) # ps))"
  by pat_completeness auto
termination
  by (relation "measure (\<lambda>(s, sep). length s)") auto

text \<open>The decimal numeral that \<^verbatim>\<open>str(n)\<close> and an f-string print for a natural number.\<close>

fun str_of_nat :: "nat \<Rightarrow> string" where
  "str_of_nat n =
     (if n < 10 then [char_of (48 + n)]
      else str_of_nat (n div 10) @ [char_of (48 + n mod 10)])"

declare str_of_nat.simps [simp del]

text \<open>\<^verbatim>\<open>str(x)\<close> for an \<^verbatim>\<open>Optional[str]\<close>, as an f-string renders it.\<close>

fun str_of_opt :: "string option \<Rightarrow> string" where
  "str_of_opt None = ''None''"
| "str_of_opt (Some s) = s"

text \<open>\<^verbatim>\<open>os.path.join(a, b)\<close> of \<^verbatim>\<open>posixpath\<close>, for two arguments.\<close>

definition os_path_join :: "string \<Rightarrow> string \<Rightarrow> string" where
  "os_path_join a b =
     (if startswith b ''/'' then b
      else if a = [] \<or> last a = CHR ''/'' then a @ b
      else a @ ''/'' @ b)"

section \<open>Errors, files and the console\<close>

datatype error =
    FileNotFoundError string
  | JSONDecodeError
  | TypeError
  | ValueError
  | RuntimeError string

text \<open>
  The state the script works on: the text files by path, and the lines printed so far.
  A file holds its decoded characters. Reading in text mode translates every line
  ending (\<^verbatim>\<open>\r\n\<close> and a lone \<^verbatim>\<open>\r\<close>) to \<^verbatim>\<open>\n\<close>; writing on a POSIX system stores
  the characters as they are. A function that can raise returns \<open>error + 'a\<close> together
  with the state at the moment it returns or raises.
\<close>

record world =
  files :: "string \<rightharpoonup> string"
  stdout :: "string list"

fun universal_newlines :: "string \<Rightarrow> string" where
  "universal_newlines [] = []"
| "universal_newlines [c] = (if c = CHR 0x0D then [CHR 0x0A] else [c])"
| "universal_newlines (c # d # cs) =
     (if c = CHR 0x0D
        then (if d = CHR 0x0A then CHR 0x0A # universal_newlines cs
              else CHR 0x0A # universal_newlines (d # cs))
      else c # universal_newlines (d # cs))"

text \<open>\<^verbatim>\<open>open(filename).read()\<close>: the whole text of an existing file.\<close>

definition read_text :: "string \<Rightarrow> world \<Rightarrow> error + string" where
  "read_text filename w =
     (case files w filename of
        None \<Rightarrow> Inl (FileNotFoundError filename)
      | Some raw \<Rightarrow> Inr (universal_newlines raw))"

text \<open>
  \<^verbatim>\<open>open(filename, "w")\<close> followed by writes of \<open>s\<close>, for a file whose directory exists:
  the file is replaced. Every file that exists has a directory, and the script is
  written for files that exist already; the theorems about the files it writes carry
  the hypothesis that they do. A missing directory, for which \<^verbatim>\<open>open\<close> raises
  \<^verbatim>\<open>FileNotFoundError\<close>, is outside this model.
\<close>

definition write_text :: "string \<Rightarrow> string \<Rightarrow> world \<Rightarrow> world" where
  "write_text filename s w = w\<lparr>files := (files w)(filename \<mapsto> s)\<rparr>"

definition print :: "string \<Rightarrow> world \<Rightarrow> world" where
  "print s w = w\<lparr>stdout := stdout w @ [s]\<rparr>"

text \<open>\<^verbatim>\<open>f.readlines()\<close>: the lines of a text, each with its line feed.\<close>

fun readlines :: "string \<Rightarrow> string list" where
  "readlines [] = []"
| "readlines (c # cs) =
     (if c = CHR 0x0A then [c] # readlines cs
      else (case readlines cs of
              [] \<Rightarrow> [[c]]
            | l # ls \<Rightarrow> (c # l) # ls))"

section \<open>JSON values\<close>

text \<open>
  What \<^verbatim>\<open>json.load\<close> returns. A \<^verbatim>\<open>dict\<close> keeps its keys in insertion order, so it is
  an association list. A float is carried by its \<^verbatim>\<open>repr\<close>; the script never computes
  with one. The parser and the printer of the \<^verbatim>\<open>json\<close> module belong to Python's
  library: the functions below take them as the arguments \<open>json_load\<close> (from the text
  of a file) and \<open>json_dump\<close> (with the value of \<^verbatim>\<open>indent\<close> first).
\<close>

datatype json =
    JNull
  | JBool bool
  | JInt int
  | JFloat string
  | JStr string
  | JList "json list"
  | JDict "(string \<times> json) list"

text \<open>\<^verbatim>\<open>key in obj\<close>, which raises \<^verbatim>\<open>TypeError\<close> on a value that is not a container.\<close>

fun json_contains :: "json \<Rightarrow> string \<Rightarrow> error + bool" where
  "json_contains (JDict kvs) key = Inr (key \<in> set (map fst kvs))"
| "json_contains (JList xs) key = Inr (JStr key \<in> set xs)"
| "json_contains (JStr s) key = Inr (str_contains s key)"
| "json_contains _ key = Inl TypeError"

text \<open>\<^verbatim>\<open>obj[key] = value\<close> for a string key: only a \<^verbatim>\<open>dict\<close> accepts it.\<close>

fun json_setitem :: "json \<Rightarrow> string \<Rightarrow> json \<Rightarrow> error + json" where
  "json_setitem (JDict kvs) key v = Inr (JDict (AList.update key v kvs))"
| "json_setitem _ key v = Inl TypeError"

section \<open>The script\<close>

definition VERSION_LINE_START :: string where
  "VERSION_LINE_START = ''__version__ = ''"

definition DIRECTORIES :: "string list" where
  "DIRECTORIES =
     [''ml-agents/mlagents/trainers'',
      ''ml-agents-envs/mlagents_envs'',
      ''gym-unity/gym_unity'']"

definition UNITY_PACKAGE_JSON_PATH :: string where
  "UNITY_PACKAGE_JSON_PATH = ''com.unity.ml-agents/package.json''"

definition ACADEMY_PATH :: string where
  "ACADEMY_PATH = ''com.unity.ml-agents/Runtime/Academy.cs''"

text \<open>
  \<^verbatim>\<open>PYTHON_VERSION_FILE_TEMPLATE.format(version=..., release_tag=...)\<close>: the text of
  the template with its two fields filled in.
\<close>

definition PYTHON_VERSION_FILE_TEMPLATE :: "string \<Rightarrow> string \<Rightarrow> string" where
  "PYTHON_VERSION_FILE_TEMPLATE version release_tag =
     ''\<newline># Version of the library that will be used to upload to pypi\<newline>__version__ = ''
     @ version
     @ ''\<newline>\<newline># Git tag that will be checked to determine whether to trigger upload to pypi\<newline>__release_tag__ = ''
     @ release_tag
     @ ''\<newline>''"

fun escape_non_none :: "string option \<Rightarrow> string" where
  "escape_non_none (Some s) = ''\"'' @ s @ ''\"''"
| "escape_non_none None = ''None''"

text \<open>The loop of \<^verbatim>\<open>extract_version_string\<close> over the lines of the file.\<close>

fun extract_version_lines :: "string list \<Rightarrow> string option" where
  "extract_version_lines [] = None"
| "extract_version_lines (l # ls) =
     (if startswith l VERSION_LINE_START
        then Some (strip (str_replace l VERSION_LINE_START ''''))
      else extract_version_lines ls)"

definition extract_version_string :: "string \<Rightarrow> world \<Rightarrow> (error + string option) \<times> world" where
  "extract_version_string filename w =
     (case read_text filename w of
        Inl e \<Rightarrow> (Inl e, w)
      | Inr text \<Rightarrow> (Inr (extract_version_lines (readlines text)), w))"

text \<open>The loop of \<^verbatim>\<open>check_versions\<close>, with the dictionary \<open>version_by_dir\<close> it fills.\<close>

fun check_versions_loop ::
  "string list \<Rightarrow> (string \<times> string option) list \<Rightarrow> world
     \<Rightarrow> (error + (string \<times> string option) list) \<times> world" where
  "check_versions_loop [] version_by_dir w = (Inr version_by_dir, w)"
| "check_versions_loop (directory # ds) version_by_dir w =
     (let path = os_path_join directory ''__init__.py'' in
      case extract_version_string path w of
        (Inl e, w1) \<Rightarrow> (Inl e, w1)
      | (Inr version, w1) \<Rightarrow>
          let w2 = print (''Found version '' @ str_of_opt version @ '' for '' @ directory) w1
          in check_versions_loop ds (AList.update directory version version_by_dir) w2)"

definition check_versions :: "world \<Rightarrow> (error + bool) \<times> world" where
  "check_versions w =
     (case check_versions_loop DIRECTORIES [] w of
        (Inl e, w1) \<Rightarrow> (Inl e, w1)
      | (Inr version_by_dir, w1) \<Rightarrow>
          let versions = set (map snd version_by_dir) in
          if card versions \<noteq> 1 \<or> None \<in> versions
            then (Inr False, print ''Each setup.py must have the same VERSION string.'' w1)
          else (Inr True, w1))"

text \<open>
  The two lines of \<^verbatim>\<open>set_package_version\<close> between reading and writing:
  \<^verbatim>\<open>if "version" in package_json: package_json["version"] = new_version\<close>.
\<close>

definition manifest_update :: "json \<Rightarrow> string \<Rightarrow> error + json" where
  "manifest_update package_json new_version =
     (case json_contains package_json ''version'' of
        Inl e \<Rightarrow> Inl e
      | Inr present \<Rightarrow>
          if present then json_setitem package_json ''version'' (JStr new_version)
          else Inr package_json)"

text \<open>\<^verbatim>\<open>set_package_version\<close>: the manifest is read, changed in memory and written back.\<close>

definition set_package_version ::
  "(string \<Rightarrow> error + json) \<Rightarrow> (nat \<Rightarrow> json \<Rightarrow> string) \<Rightarrow> string \<Rightarrow> world
     \<Rightarrow> (error + unit) \<times> world" where
  "set_package_version json_load json_dump new_version w =
     (case read_text UNITY_PACKAGE_JSON_PATH w of
        Inl e \<Rightarrow> (Inl e, w)
      | Inr text \<Rightarrow>
          (case json_load text of
             Inl e \<Rightarrow> (Inl e, w)
           | Inr package_json \<Rightarrow>
               (case manifest_update package_json new_version of
                  Inl e \<Rightarrow> (Inl e, w)
                | Inr package_json' \<Rightarrow>
                    (Inr (),
                     write_text UNITY_PACKAGE_JSON_PATH (json_dump 2 package_json') w))))"

definition needle :: string where
  "needle = ''internal const string k_PackageVersion''"

text \<open>
  The loop of \<^verbatim>\<open>set_academy_version_string\<close>. It visits the lines in order, stores
  the new line at the index of the line it is looking at and counts the matches, so
  it is a traversal that returns the new lines and the count. Unpacking
  \<^verbatim>\<open>left, right = l.split(" = ")\<close> raises \<^verbatim>\<open>ValueError\<close> unless the split has exactly two
  pieces.
\<close>

definition str_split :: "string \<Rightarrow> string \<Rightarrow> error + string list" where
  "str_split s sep = (if sep = [] then Inl ValueError else Inr (split_parts s sep))"

fun academy_loop :: "string \<Rightarrow> string list \<Rightarrow> error + (string list \<times> nat)" where
  "academy_loop new_version [] = Inr ([], 0)"
| "academy_loop new_version (l # ls) =
     (if str_contains l needle
        then (case str_split l '' = '' of
                Inr [left, right] \<Rightarrow>
                  (case academy_loop new_version ls of
                     Inl e \<Rightarrow> Inl e
                   | Inr (ls', found) \<Rightarrow>
                       Inr ((left @ '' = \"'' @ new_version @ ''\";\<newline>'') # ls', found + 1))
              | Inr _ \<Rightarrow> Inl ValueError
              | Inl e \<Rightarrow> Inl e)
      else (case academy_loop new_version ls of
              Inl e \<Rightarrow> Inl e
            | Inr (ls', found) \<Rightarrow> Inr (l # ls', found)))"

text \<open>The number of lines that hold the marker, which is what the loop counts.\<close>

definition marker_count :: "string list \<Rightarrow> nat" where
  "marker_count ls = length (filter (\<lambda>l. str_contains l needle) ls)"

definition found_message :: "nat \<Rightarrow> string" where
  "found_message found =
     ''Expected to find search string \"'' @ needle
     @ ''\" exactly once, but found it '' @ str_of_nat found @ '' times''"

definition set_academy_version_string :: "string \<Rightarrow> world \<Rightarrow> (error + unit) \<times> world" where
  "set_academy_version_string new_version w =
     (case read_text ACADEMY_PATH w of
        Inl e \<Rightarrow> (Inl e, w)
      | Inr text \<Rightarrow>
          (case academy_loop new_version (readlines text) of
             Inl e \<Rightarrow> (Inl e, w)
           | Inr (lines, found) \<Rightarrow>
               if found \<noteq> 1 then (Inl (RuntimeError (found_message found)), w)
               else (Inr (), write_text ACADEMY_PATH (concat lines) w)))"

text \<open>The loop of \<^verbatim>\<open>set_version\<close> over the component directories.\<close>

fun set_version_loop :: "string list \<Rightarrow> string \<Rightarrow> string option \<Rightarrow> world \<Rightarrow> world" where
  "set_version_loop [] new_contents python_version w = w"
| "set_version_loop (directory # ds) new_contents python_version w =
     (let path = os_path_join directory ''__init__.py'';
          w1 = print (''Setting '' @ path @ '' to version '' @ str_of_opt python_version) w;
          w2 = write_text path new_contents w1
      in set_version_loop ds new_contents python_version w2)"

definition set_version ::
  "(string \<Rightarrow> error + json) \<Rightarrow> (nat \<Rightarrow> json \<Rightarrow> string)
     \<Rightarrow> string option \<Rightarrow> string option \<Rightarrow> string option \<Rightarrow> world
     \<Rightarrow> (error + unit) \<times> world" where
  "set_version json_load json_dump python_version csharp_version release_tag w =
     (let new_contents =
            PYTHON_VERSION_FILE_TEMPLATE
              (escape_non_none python_version) (escape_non_none release_tag);
          w1 = set_version_loop DIRECTORIES new_contents python_version w
      in case csharp_version of
           None \<Rightarrow> (Inr (), w1)
         | Some cv \<Rightarrow>
             (let package_version = cv @ ''-preview'';
                  w2 = print (''Setting package version to '' @ package_version @ '' in ''
                                @ UNITY_PACKAGE_JSON_PATH) w1
              in case set_package_version json_load json_dump package_version w2 of
                   (Inl e, w3) \<Rightarrow> (Inl e, w3)
                 | (Inr u, w3) \<Rightarrow>
                     (let w4 = print (''Setting package version to '' @ package_version
                                        @ '' in '' @ ACADEMY_PATH) w3
                      in set_academy_version_string package_version w4)))"

text \<open>
  The command line after \<^verbatim>\<open>argparse\<close>: three optional strings and the file names
  that are accepted and not used. The process ends with an exit status, or with an
  exception that nothing catches.
\<close>

record args =
  python_version :: "string option"
  csharp_version :: "string option"
  release_tag :: "string option"
  file_names :: "string list"

datatype outcome = Exit nat | Uncaught error

text \<open>The truth value Python gives an \<^verbatim>\<open>Optional[str]\<close>: a string that is not empty.\<close>

fun truthy :: "string option \<Rightarrow> bool" where
  "truthy None = False"
| "truthy (Some s) = (s \<noteq> [])"

definition main ::
  "(string \<Rightarrow> error + json) \<Rightarrow> (nat \<Rightarrow> json \<Rightarrow> string) \<Rightarrow> args \<Rightarrow> world
     \<Rightarrow> outcome \<times> world" where
  "main json_load json_dump a w =
     (if truthy (python_version a) then
        (let w1 = print (''Updating python library to version ''
                           @ str_of_opt (python_version a)) w;
             w2 = (if truthy (csharp_version a)
                     then print (''Updating C# package to version ''
                                   @ str_of_opt (csharp_version a)) w1
                   else w1)
         in case set_version json_load json_dump
                   (python_version a) (csharp_version a) (release_tag a) w2 of
              (Inl e, w3) \<Rightarrow> (Uncaught e, w3)
            | (Inr u, w3) \<Rightarrow> (Exit 0, w3))
      else
        (case check_versions w of
           (Inl e, w1) \<Rightarrow> (Uncaught e, w1)
         | (Inr ok, w1) \<Rightarrow> (Exit (if ok then 0 else 1), w1)))"

section \<open>Lines of a text\<close>

text \<open>
  The shape of the lists that \<open>readlines\<close> returns: no line is empty, a line feed is
  the last character of every line but possibly the last one, and it occurs nowhere
  else.
\<close>

fun text_lines :: "string list \<Rightarrow> bool" where
  "text_lines [] = True"
| "text_lines [l] = (l \<noteq> [] \<and> CHR 0x0A \<notin> set (butlast l))"
| "text_lines (l # m # ls) =
     (l \<noteq> [] \<and> CHR 0x0A \<notin> set (butlast l) \<and> last l = CHR 0x0A \<and> text_lines (m # ls))"

section \<open>Example inputs\<close>

definition marker_twice_world :: world where
  "marker_twice_world =
     \<lparr>files = [''f'' \<mapsto> ''__version__ = 1__version__ = 2\<newline>''], stdout = []\<rparr>"

definition one_version_world :: world where
  "one_version_world =
     \<lparr>files = [''f'' \<mapsto> ''# c\<newline>__version__ = \"1.2.3\"\<newline>''], stdout = []\<rparr>"

definition marker_again_world :: world where
  "marker_again_world =
     \<lparr>files = [''g'' \<mapsto> ''__version__ = a__version__ = b\<newline>''], stdout = []\<rparr>"

definition consistent_world :: world where
  "consistent_world =
     \<lparr>files =
        [''ml-agents/mlagents/trainers/__init__.py'' \<mapsto> ''__version__ = \"0.16.0\"\<newline>'',
         ''ml-agents-envs/mlagents_envs/__init__.py'' \<mapsto> ''__version__ = \"0.16.0\"\<newline>'',
         ''gym-unity/gym_unity/__init__.py'' \<mapsto> ''# gym\<newline>__version__ = \"0.16.0\"\<newline>''],
      stdout = []\<rparr>"

definition no_json_load :: "string \<Rightarrow> error + json" where
  "no_json_load text = Inl JSONDecodeError"

definition no_json_dump :: "nat \<Rightarrow> json \<Rightarrow> string" where
  "no_json_dump indent obj = []"

definition empty_version_args :: args where
  "empty_version_args =
     \<lparr>python_version = Some '''', csharp_version = Some ''1.0.0'', release_tag = None,
      file_names = []\<rparr>"


text \<open>
  The \<^verbatim>\<open>json\<close> module on the documents of the examples: what \<^verbatim>\<open>json.load\<close> returns for
  three texts and what \<^verbatim>\<open>json.dump\<close> with \<^verbatim>\<open>indent=2\<close> writes for two values.
\<close>

definition demo_json_load :: "string \<Rightarrow> error + json" where
  "demo_json_load text =
     (if text = ''{}'' then Inr (JDict [])
      else if text = ''{\"name\": \"com.unity.ml-agents\", \"version\": \"0.15.0-preview\"}''
        then Inr (JDict [(''name'', JStr ''com.unity.ml-agents''),
                         (''version'', JStr ''0.15.0-preview'')])
      else if text = ''{\<newline>  \"name\": \"com.unity.ml-agents\",\<newline>  \"version\": \"1.0.0-preview\"\<newline>}''
        then Inr (JDict [(''name'', JStr ''com.unity.ml-agents''),
                         (''version'', JStr ''1.0.0-preview'')])
      else Inl JSONDecodeError)"

definition demo_json_dump :: "nat \<Rightarrow> json \<Rightarrow> string" where
  "demo_json_dump indent obj =
     (if obj = JDict [] then ''{}''
      else if indent = 2 \<and> obj = JDict [(''name'', JStr ''com.unity.ml-agents''),
                                        (''version'', JStr ''1.0.0-preview'')]
        then ''{\<newline>  \"name\": \"com.unity.ml-agents\",\<newline>  \"version\": \"1.0.0-preview\"\<newline>}''
      else [])"

text \<open>
  States with the three component version files at version \<^verbatim>\<open>0.15.0\<close>, a manifest
  and a native source file.
\<close>

definition release_world :: world where
  "release_world =
     \<lparr>files =
        [''ml-agents/mlagents/trainers/__init__.py'' \<mapsto> ''__version__ = \"0.15.0\"\<newline>'',
         ''ml-agents-envs/mlagents_envs/__init__.py'' \<mapsto> ''__version__ = \"0.15.0\"\<newline>'',
         ''gym-unity/gym_unity/__init__.py'' \<mapsto> ''__version__ = \"0.15.0\"\<newline>'',
         ''com.unity.ml-agents/package.json'' \<mapsto>
           ''{\"name\": \"com.unity.ml-agents\", \"version\": \"0.15.0-preview\"}'',
         ''com.unity.ml-agents/Runtime/Academy.cs'' \<mapsto>
           ''// Academy\<newline>    internal const string k_PackageVersion = \"0.15.0-preview\";\<newline>}\<newline>''],
      stdout = []\<rparr>"


definition comment_marker_world :: world where
  "comment_marker_world =
     \<lparr>files =
        [''ml-agents/mlagents/trainers/__init__.py'' \<mapsto> ''__version__ = \"0.15.0\"\<newline>'',
         ''ml-agents-envs/mlagents_envs/__init__.py'' \<mapsto> ''__version__ = \"0.15.0\"\<newline>'',
         ''gym-unity/gym_unity/__init__.py'' \<mapsto> ''__version__ = \"0.15.0\"\<newline>'',
         ''com.unity.ml-agents/package.json'' \<mapsto>
           ''{\"name\": \"com.unity.ml-agents\", \"version\": \"0.15.0-preview\"}'',
         ''com.unity.ml-agents/Runtime/Academy.cs'' \<mapsto>
           ''// see internal const string k_PackageVersion\<newline>internal const string k_PackageVersion = \"0.15.0\";\<newline>''],
      stdout = []\<rparr>"


definition bare_manifest_world :: world where
  "bare_manifest_world =
     \<lparr>files =
        [''ml-agents/mlagents/trainers/__init__.py'' \<mapsto> ''__version__ = \"0.15.0\"\<newline>'',
         ''ml-agents-envs/mlagents_envs/__init__.py'' \<mapsto> ''__version__ = \"0.15.0\"\<newline>'',
         ''gym-unity/gym_unity/__init__.py'' \<mapsto> ''__version__ = \"0.15.0\"\<newline>'',
         ''com.unity.ml-agents/package.json'' \<mapsto> ''{}'',
         ''com.unity.ml-agents/Runtime/Academy.cs'' \<mapsto>
           ''internal const string k_PackageVersion = \"0.15.0\";\<newline>''],
      stdout = []\<rparr>"

section \<open>Facts about the string functions\<close>

declare str_replace.simps [simp del]
declare split_parts.simps [simp del]

lemma str_replace_Nil [simp]: "old \<noteq> [] \<Longrightarrow> str_replace [] old new = []"
  by (simp add: str_replace.simps)

lemma str_replace_match:
  "old \<noteq> [] \<Longrightarrow> startswith (c # cs) old
     \<Longrightarrow> str_replace (c # cs) old new = new @ str_replace (drop (length old) (c # cs)) old new"
  by (simp only: str_replace.simps if_True if_False)

lemma str_replace_skip:
  "old \<noteq> [] \<Longrightarrow> \<not> startswith (c # cs) old
     \<Longrightarrow> str_replace (c # cs) old new = c # str_replace cs old new"
  by (simp only: str_replace.simps if_True if_False)

lemma startswith_append [simp]: "startswith (p @ s) p"
  by (simp add: startswith_def)

lemma startswith_Nil [simp]: "startswith s []"
  by (simp add: startswith_def)

lemma startswith_length: "startswith s p \<Longrightarrow> length p \<le> length s"
proof -
  assume "startswith s p"
  then have "length (take (length p) s) = length p" by (simp add: startswith_def)
  then show ?thesis by simp
qed

lemma startswith_take:
  "length p \<le> n \<Longrightarrow> startswith (take n s) p = startswith s p"
  by (simp add: startswith_def min_def)

lemma startswith_append_long:
  "length p \<le> length s \<Longrightarrow> startswith (s @ t) p = startswith s p"
  by (simp add: startswith_def)

lemma str_contains_short: "length s < length sub \<Longrightarrow> \<not> str_contains s sub"
  by (induction s) (auto dest: startswith_length)

lemma str_replace_absent:
  "old \<noteq> [] \<Longrightarrow> \<not> str_contains s old \<Longrightarrow> str_replace s old new = s"
  by (induction s) (simp_all add: str_replace_skip)

lemma str_replace_first:
  "old \<noteq> [] \<Longrightarrow> \<not> str_contains (a @ butlast old) old
     \<Longrightarrow> str_replace (a @ old @ b) old new = a @ new @ str_replace b old new"
proof (induction a)
  case Nil
  from Nil.prems(1) obtain c cs where old: "old = c # cs" by (cases old) auto
  have "startswith (c # cs @ b) (c # cs)" by (simp add: startswith_def)
  then have "str_replace (c # cs @ b) (c # cs) new = new @ str_replace b (c # cs) new"
    by (simp add: str_replace_match)
  then show ?case by (simp add: old)
next
  case (Cons c a)
  from Cons.prems(1) have old: "butlast old @ [last old] = old" by simp
  have len: "length old \<le> length (c # a @ butlast old)" by simp
  have eq: "(c # a @ butlast old) @ ([last old] @ b) = c # a @ old @ b"
    by (metis old append_Cons append_assoc)
  have ns: "\<not> startswith (c # a @ butlast old) old"
    using Cons.prems(2) by simp
  have "\<not> startswith ((c # a @ butlast old) @ ([last old] @ b)) old"
    unfolding startswith_append_long [OF len] by (rule ns)
  then have nsw: "\<not> startswith (c # a @ old @ b) old"
    unfolding eq .
  have "\<not> str_contains (a @ butlast old) old"
    using Cons.prems(2) by simp
  from Cons.IH [OF Cons.prems(1) this]
  have ih: "str_replace (a @ old @ b) old new = a @ new @ str_replace b old new" .
  have "str_replace (c # a @ old @ b) old new = c # str_replace (a @ old @ b) old new"
    using nsw Cons.prems(1) by (rule str_replace_skip [rotated])
  then show ?case by (simp only: ih append_Cons)
qed

lemma extract_version_lines_none:
  "\<forall>l\<in>set ls. \<not> startswith l VERSION_LINE_START \<Longrightarrow> extract_version_lines ls = None"
  by (induction ls) auto

lemma extract_version_lines_first:
  "\<forall>k\<in>set pre. \<not> startswith k VERSION_LINE_START \<Longrightarrow> startswith l VERSION_LINE_START
     \<Longrightarrow> extract_version_lines (pre @ l # post)
           = Some (strip (str_replace l VERSION_LINE_START ''''))"
  by (induction pre) auto

lemma extract_version_string_files:
  "extract_version_string filename w =
     (case files w filename of
        None \<Rightarrow> (Inl (FileNotFoundError filename), w)
      | Some raw \<Rightarrow> (Inr (extract_version_lines (readlines (universal_newlines raw))), w))"
  by (simp add: extract_version_string_def read_text_def split: option.splits)

lemma marker_once: "\<not> str_contains rest VERSION_LINE_START \<Longrightarrow>
   str_replace (VERSION_LINE_START @ rest) VERSION_LINE_START '''' = rest"
proof -
  assume a: "\<not> str_contains rest VERSION_LINE_START"
  have ne: "VERSION_LINE_START \<noteq> []" by (simp add: VERSION_LINE_START_def)
  have "\<not> str_contains ([] @ butlast VERSION_LINE_START) VERSION_LINE_START"
    by (rule str_contains_short) (simp add: VERSION_LINE_START_def)
  from str_replace_first [OF ne this, of rest "''''"]
  show ?thesis using str_replace_absent [OF ne a] by simp
qed

text \<open>What \<open>split_parts\<close> returns: the pieces, with the separator between them.\<close>

lemma split_parts_match:
  "sep \<noteq> [] \<Longrightarrow> startswith (c # cs) sep \<Longrightarrow>
     split_parts (c # cs) sep = [] # split_parts (drop (length sep) (c # cs)) sep"
  by (simp add: split_parts.simps)

lemma split_parts_skip:
  "\<not> startswith (c # cs) sep \<Longrightarrow>
     split_parts (c # cs) sep =
       (case split_parts cs sep of [] \<Rightarrow> [[c]] | p # ps \<Rightarrow> (c # p) # ps)"
  by (simp add: split_parts.simps)

lemma split_parts_nonempty: "split_parts s sep \<noteq> []"
proof (induction s sep rule: split_parts.induct)
  case (1 sep)
  then show ?case by (simp add: split_parts.simps)
next
  case (2 c cs sep)
  then show ?case by (simp add: split_parts.simps split: list.splits)
qed


lemma split_parts_first:
  "split_parts s sep = p # q # rest \<Longrightarrow>
     sep \<noteq> [] \<and> (\<exists>r. s = p @ sep @ r \<and> split_parts r sep = q # rest)"
proof (induction s sep arbitrary: p rule: split_parts.induct)
  case (1 sep)
  then show ?case by (simp add: split_parts.simps)
next
  case (2 c cs sep)
  show ?case
  proof (cases "sep \<noteq> [] \<and> startswith (c # cs) sep")
    case True
    with "2.prems" have p: "p = []"
      and r: "split_parts (drop (length sep) (c # cs)) sep = q # rest"
      by (simp_all add: split_parts.simps)
    from True have "c # cs = sep @ drop (length sep) (c # cs)"
      by (metis append_take_drop_id startswith_def)
    with True p r show ?thesis by auto
  next
    case False
    with "2.prems" split_parts_nonempty [of cs sep]
    obtain p' where s: "split_parts cs sep = p' # q # rest" and p: "p = c # p'"
      by (auto simp: split_parts.simps split: list.splits)
    from "2.IH"(2) [OF False s] p show ?thesis by auto
  qed
qed

lemma split_parts_rebuild:
  "split_parts s sep = p # q # rest \<Longrightarrow> split_parts (p @ sep @ t) sep = p # split_parts t sep"
proof (induction s sep arbitrary: p rule: split_parts.induct)
  case (1 sep)
  then show ?case by (simp add: split_parts.simps)
next
  case (2 c cs sep)
  from split_parts_first [OF "2.prems"] have ne: "sep \<noteq> []" by simp
  show ?case
  proof (cases "startswith (c # cs) sep")
    case True
    with ne "2.prems" have p: "p = []" by (simp add: split_parts.simps)
    from ne obtain x xs where x: "sep = x # xs" by (cases sep) auto
    have "startswith (x # xs @ t) (x # xs)" by (simp add: startswith_def)
    from split_parts_match [OF _ this] have
      "split_parts (x # xs @ t) (x # xs) = [] # split_parts t (x # xs)"
      by simp
    with p x show ?thesis by simp
  next
    case False
    with "2.prems" split_parts_nonempty [of cs sep]
    obtain p' where s: "split_parts cs sep = p' # q # rest" and p: "p = c # p'"
      by (auto simp: split_parts.simps split: list.splits)
    from False ne have f: "\<not> (sep \<noteq> [] \<and> startswith (c # cs) sep)" by simp
    from "2.IH"(2) [OF f s] have ih: "split_parts (p' @ sep @ t) sep = p' # split_parts t sep" .
    from split_parts_first [OF s] obtain r where cs: "cs = p' @ sep @ r" by blast
    have len: "length sep \<le> length (c # p' @ sep)" by simp
    have "startswith ((c # p' @ sep) @ r) sep = startswith (c # p' @ sep) sep"
      by (rule startswith_append_long [OF len])
    moreover have "startswith ((c # p' @ sep) @ t) sep = startswith (c # p' @ sep) sep"
      by (rule startswith_append_long [OF len])
    ultimately have "\<not> startswith (c # p' @ sep @ t) sep"
      using False cs by simp
    from split_parts_skip [OF this] ih p show ?thesis by simp
  qed
qed


text \<open>Reading the lines of a text and writing them back.\<close>

lemma concat_readlines: "concat (readlines s) = s"
  by (induction s) (auto split: list.splits)

lemma readlines_nonempty: "s \<noteq> [] \<Longrightarrow> readlines s \<noteq> []"
  by (cases s) (auto split: list.splits)

lemma text_lines_readlines: "text_lines (readlines s)"
proof (induction s)
  case Nil
  then show ?case by simp
next
  case (Cons c cs)
  show ?case
  proof (cases "c = CHR 0x0A")
    case True
    with Cons show ?thesis by (cases "readlines cs") simp_all
  next
    case False
    show ?thesis
    proof (cases "readlines cs")
      case Nil
      with False show ?thesis by simp
    next
      case (Cons l ls)
      note rl = this
      with Cons.IH have t: "text_lines (l # ls)" by simp
      show ?thesis
      proof (cases ls)
        case Nil
        with t rl False show ?thesis by (cases l) auto
      next
        case (Cons m ms)
        with t rl False show ?thesis by (cases l) auto
      qed
    qed
  qed
qed

lemma readlines_no_feed:
  "s \<noteq> [] \<Longrightarrow> CHR 0x0A \<notin> set (butlast s) \<Longrightarrow> readlines s = [s]"
proof (induction s)
  case Nil
  then show ?case by simp
next
  case (Cons c cs)
  show ?case
  proof (cases cs)
    case Nil
    then show ?thesis by simp
  next
    case (Cons d ds)
    with Cons.prems have "c \<noteq> CHR 0x0A" and "CHR 0x0A \<notin> set (butlast cs)" by auto
    with Cons.IH Cons show ?thesis by simp
  qed
qed

lemma readlines_line:
  "l \<noteq> [] \<Longrightarrow> CHR 0x0A \<notin> set (butlast l) \<Longrightarrow> last l = CHR 0x0A \<Longrightarrow>
     readlines (l @ rest) = l # readlines rest"
proof (induction l)
  case Nil
  then show ?case by simp
next
  case (Cons c cs)
  show ?case
  proof (cases cs)
    case Nil
    with Cons.prems show ?thesis by simp
  next
    case (Cons d ds)
    with Cons.prems have "c \<noteq> CHR 0x0A" and "CHR 0x0A \<notin> set (butlast cs)"
      and "last cs = CHR 0x0A" and "cs \<noteq> []"
      by auto
    with Cons.IH show ?thesis by simp
  qed
qed

lemma readlines_concat: "text_lines ls \<Longrightarrow> readlines (concat ls) = ls"
proof (induction ls rule: text_lines.induct)
  case 1
  then show ?case by simp
next
  case (2 l)
  then show ?case by (simp add: readlines_no_feed)
next
  case (3 l m ls)
  then show ?case by (simp add: readlines_line)
qed

lemma universal_newlines_id:
  "CHR 0x0D \<notin> set s \<Longrightarrow> universal_newlines s = s"
  by (induction s rule: universal_newlines.induct) auto

lemma universal_newlines_no_return: "CHR 0x0D \<notin> set (universal_newlines s)"
  by (induction s rule: universal_newlines.induct) auto

section \<open>Facts about the loop over the lines of the native source file\<close>

lemma academy_loop_marker:
  "str_contains l needle \<Longrightarrow> split_parts l '' = '' = [left, right] \<Longrightarrow>
     academy_loop nv (l # ls) =
       (case academy_loop nv ls of
          Inl e \<Rightarrow> Inl e
        | Inr (ls', found) \<Rightarrow>
            Inr ((left @ '' = \"'' @ nv @ ''\";\<newline>'') # ls', found + 1))"
  by (simp add: str_split_def)

lemma academy_loop_bad:
  "str_contains l needle \<Longrightarrow> length (split_parts l '' = '') \<noteq> 2 \<Longrightarrow>
     academy_loop nv (l # ls) = Inl ValueError"
  by (auto simp: str_split_def split: list.splits)

lemma academy_loop_other:
  "\<not> str_contains l needle \<Longrightarrow>
     academy_loop nv (l # ls) =
       (case academy_loop nv ls of
          Inl e \<Rightarrow> Inl e
        | Inr (ls', found) \<Rightarrow> Inr (l # ls', found))"
  by simp

declare academy_loop.simps(2) [simp del]

lemma two_parts: "length xs = 2 \<Longrightarrow> \<exists>a b. xs = [a, b]"
  by (cases xs; cases "tl xs") auto

lemma academy_loop_count:
  "academy_loop nv ls = Inr (ls', n) \<Longrightarrow> n = marker_count ls \<and> length ls' = length ls"
proof (induction ls arbitrary: ls' n)
  case Nil
  then show ?case by (simp add: marker_count_def)
next
  case (Cons l ls)
  show ?case
  proof (cases "str_contains l needle")
    case False
    with Cons.prems obtain ks m where r: "academy_loop nv ls = Inr (ks, m)"
      and "ls' = l # ks" and "n = m"
      by (auto simp: academy_loop_other split: sum.splits)
    with Cons.IH [OF r] False show ?thesis by (simp add: marker_count_def)
  next
    case True
    show ?thesis
    proof (cases "length (split_parts l '' = '') = 2")
      case False
      with True Cons.prems show ?thesis by (simp add: academy_loop_bad)
    next
      case len: True
      then obtain left right where sp: "split_parts l '' = '' = [left, right]"
        using two_parts by blast
      with True Cons.prems obtain ks m where r: "academy_loop nv ls = Inr (ks, m)"
        and "ls' = (left @ '' = \"'' @ nv @ ''\";\<newline>'') # ks" and "n = m + 1"
        by (auto simp: academy_loop_marker split: sum.splits)
      with Cons.IH [OF r] True show ?thesis by (simp add: marker_count_def)
    qed
  qed
qed

lemma academy_loop_well_formed:
  "\<forall>l\<in>set ls. str_contains l needle \<longrightarrow> length (split_parts l '' = '') = 2 \<Longrightarrow>
     \<exists>ls'. academy_loop nv ls = Inr (ls', marker_count ls)"
proof (induction ls)
  case Nil
  then show ?case by (simp add: marker_count_def)
next
  case (Cons l ls)
  then obtain ks where r: "academy_loop nv ls = Inr (ks, marker_count ls)" by auto
  show ?case
  proof (cases "str_contains l needle")
    case False
    with r show ?thesis by (simp add: academy_loop_other marker_count_def)
  next
    case True
    with Cons.prems have "length (split_parts l '' = '') = 2" by simp
    then obtain left right where "split_parts l '' = '' = [left, right]"
      using two_parts by blast
    with True r show ?thesis by (simp add: academy_loop_marker marker_count_def)
  qed
qed



lemma academy_line_again:
  assumes "split_parts l '' = '' = [left, right]"
    and "split_parts (left @ '' = \"'' @ nv @ ''\";\<newline>'') '' = '' = [left', right']"
  shows "left' = left"
proof -
  from split_parts_rebuild [OF assms(1), of "''\"'' @ nv @ ''\";\<newline>''"]
  have "split_parts (left @ '' = '' @ ''\"'' @ nv @ ''\";\<newline>'') '' = ''
          = left # split_parts (''\"'' @ nv @ ''\";\<newline>'') '' = ''" .
  with assms(2) show ?thesis by simp
qed

lemma academy_loop_idem:
  "academy_loop nv ls = Inr (ls1, n) \<Longrightarrow> academy_loop nv ls1 = Inr (ls2, m) \<Longrightarrow> ls2 = ls1"
proof (induction ls arbitrary: ls1 n ls2 m)
  case Nil
  then show ?case by simp
next
  case (Cons l ls)
  show ?case
  proof (cases "str_contains l needle")
    case False
    with Cons.prems(1) obtain ks k where r: "academy_loop nv ls = Inr (ks, k)"
      and ls1: "ls1 = l # ks"
      by (auto simp: academy_loop_other split: sum.splits)
    with Cons.prems(2) False obtain js j where r2: "academy_loop nv ks = Inr (js, j)"
      and "ls2 = l # js"
      by (auto simp: academy_loop_other split: sum.splits)
    with Cons.IH [OF r r2] ls1 show ?thesis by simp
  next
    case True
    show ?thesis
    proof (cases "length (split_parts l '' = '') = 2")
      case False
      with True Cons.prems(1) show ?thesis by (simp add: academy_loop_bad)
    next
      case len: True
      then obtain left right where sp: "split_parts l '' = '' = [left, right]"
        using two_parts by blast
      let ?l1 = "left @ '' = \"'' @ nv @ ''\";\<newline>''"
      from True sp Cons.prems(1) obtain ks k where r: "academy_loop nv ls = Inr (ks, k)"
        and ls1: "ls1 = ?l1 # ks"
        by (auto simp: academy_loop_marker split: sum.splits)
      show ?thesis
      proof (cases "str_contains ?l1 needle")
        case False
        with Cons.prems(2) ls1 obtain js j where r2: "academy_loop nv ks = Inr (js, j)"
          and "ls2 = ?l1 # js"
          by (auto simp: academy_loop_other split: sum.splits)
        with Cons.IH [OF r r2] ls1 show ?thesis by simp
      next
        case c1: True
        show ?thesis
        proof (cases "length (split_parts ?l1 '' = '') = 2")
          case False
          with c1 Cons.prems(2) ls1 show ?thesis by (simp add: academy_loop_bad)
        next
          case True
          then obtain left' right' where sp1: "split_parts ?l1 '' = '' = [left', right']"
            using two_parts by blast
          from academy_line_again [OF sp sp1] have "left' = left" .
          with c1 sp1 Cons.prems(2) ls1 obtain js j where r2: "academy_loop nv ks = Inr (js, j)"
            and "ls2 = ?l1 # js"
            by (auto simp: academy_loop_marker split: sum.splits)
          with Cons.IH [OF r r2] ls1 show ?thesis by simp
        qed
      qed
    qed
  qed
qed

section \<open>Facts about files and the console\<close>

lemma files_print [simp]: "files (print s w) = files w"
  by (simp add: print_def)

lemma files_write_text [simp]: "files (write_text p s w) = (files w)(p \<mapsto> s)"
  by (simp add: write_text_def)

lemma extract_version_string_cong:
  "files w' = files w \<Longrightarrow>
     fst (extract_version_string p w') = fst (extract_version_string p w)"
  by (simp add: extract_version_string_files split: option.splits)

lemma extract_version_string_print [simp]:
  "fst (extract_version_string p (print s w)) = fst (extract_version_string p w)"
  by (rule extract_version_string_cong) simp


lemma extract_version_string_snd: "snd (extract_version_string filename w) = w"
  by (simp add: extract_version_string_files split: option.splits)

section \<open>The files that \<open>set_version\<close> writes\<close>

lemma set_version_loop_files:
  "files (set_version_loop ds new_contents pv w) =
     (\<lambda>p. if p \<in> (\<lambda>d. os_path_join d ''__init__.py'') ` set ds
          then Some new_contents else files w p)"
proof (induction ds arbitrary: w)
  case Nil
  then show ?case by simp
next
  case (Cons d ds)
  show ?case by (simp add: Cons.IH Let_def fun_eq_iff)
qed

lemma set_package_version_files:
  "p \<noteq> UNITY_PACKAGE_JSON_PATH \<Longrightarrow>
     files (snd (set_package_version jl jd nv w)) p = files w p"
  by (simp add: set_package_version_def split: sum.splits)

lemma set_academy_version_string_files:
  "p \<noteq> ACADEMY_PATH \<Longrightarrow>
     files (snd (set_academy_version_string nv w)) p = files w p"
  by (simp add: set_academy_version_string_def split: sum.splits prod.splits)

lemma init_path_not_manifest:
  "d \<in> set DIRECTORIES \<Longrightarrow> os_path_join d ''__init__.py'' \<noteq> UNITY_PACKAGE_JSON_PATH"
  by (auto simp: DIRECTORIES_def UNITY_PACKAGE_JSON_PATH_def os_path_join_def startswith_def)

lemma init_path_not_academy:
  "d \<in> set DIRECTORIES \<Longrightarrow> os_path_join d ''__init__.py'' \<noteq> ACADEMY_PATH"
  by (auto simp: DIRECTORIES_def ACADEMY_PATH_def os_path_join_def startswith_def)

lemma set_version_other_files:
  assumes "p \<noteq> UNITY_PACKAGE_JSON_PATH" and "p \<noteq> ACADEMY_PATH"
  shows "files (snd (set_version jl jd pv cv rt w)) p =
     files (set_version_loop DIRECTORIES
              (PYTHON_VERSION_FILE_TEMPLATE (escape_non_none pv) (escape_non_none rt)) pv w) p"
proof (cases cv)
  case None
  then show ?thesis by (simp add: set_version_def Let_def)
next
  case (Some v)
  let ?w1 = "set_version_loop DIRECTORIES
              (PYTHON_VERSION_FILE_TEMPLATE (escape_non_none pv) (escape_non_none rt)) pv w"
  let ?w2 = "print (''Setting package version to '' @ (v @ ''-preview'') @ '' in ''
                                @ UNITY_PACKAGE_JSON_PATH) ?w1"
  obtain r w3 where s: "set_package_version jl jd (v @ ''-preview'') ?w2 = (r, w3)"
    by (cases "set_package_version jl jd (v @ ''-preview'') ?w2")
  from set_package_version_files [OF assms(1), of jl jd "v @ ''-preview''" ?w2] s
  have f3: "files w3 p = files ?w1 p" by simp
  show ?thesis
  proof (cases r)
    case (Inl e)
    with Some s f3 show ?thesis by (simp add: set_version_def Let_def)
  next
    case (Inr u)
    with Some s f3 show ?thesis
      by (simp add: set_version_def Let_def set_academy_version_string_files [OF assms(2)])
  qed
qed

lemma set_version_init_files:
  "d \<in> set DIRECTORIES \<Longrightarrow>
     files (snd (set_version jl jd pv cv rt w)) (os_path_join d ''__init__.py'')
       = Some (PYTHON_VERSION_FILE_TEMPLATE (escape_non_none pv) (escape_non_none rt))"
  by (simp add: set_version_other_files init_path_not_manifest init_path_not_academy
        set_version_loop_files)


section \<open>The steps of \<open>set_version\<close> for a native version\<close>

lemma academy_not_manifest: "ACADEMY_PATH \<noteq> UNITY_PACKAGE_JSON_PATH"
  by (simp add: ACADEMY_PATH_def UNITY_PACKAGE_JSON_PATH_def)

lemma set_version_loop_manifest:
  "files (set_version_loop DIRECTORIES nc pv w) UNITY_PACKAGE_JSON_PATH
     = files w UNITY_PACKAGE_JSON_PATH"
proof -
  have "UNITY_PACKAGE_JSON_PATH \<notin> (\<lambda>d. os_path_join d ''__init__.py'') ` set DIRECTORIES"
    using init_path_not_manifest by force
  then show ?thesis by (simp add: set_version_loop_files)
qed

lemma set_version_loop_academy:
  "files (set_version_loop DIRECTORIES nc pv w) ACADEMY_PATH = files w ACADEMY_PATH"
proof -
  have "ACADEMY_PATH \<notin> (\<lambda>d. os_path_join d ''__init__.py'') ` set DIRECTORIES"
    using init_path_not_academy by force
  then show ?thesis by (simp add: set_version_loop_files)
qed

lemma set_package_version_ok:
  "files w UNITY_PACKAGE_JSON_PATH = Some mraw \<Longrightarrow>
   jl (universal_newlines mraw) = Inr j \<Longrightarrow>
   manifest_update j nv = Inr j' \<Longrightarrow>
     set_package_version jl jd nv w
       = (Inr (), write_text UNITY_PACKAGE_JSON_PATH (jd 2 j') w)"
  by (simp add: set_package_version_def read_text_def)

lemma set_package_version_cases:
  "set_package_version jl jd nv w = (Inr u, w3) \<Longrightarrow>
     \<exists>mraw j j'. files w UNITY_PACKAGE_JSON_PATH = Some mraw
       \<and> jl (universal_newlines mraw) = Inr j
       \<and> manifest_update j nv = Inr j'
       \<and> w3 = write_text UNITY_PACKAGE_JSON_PATH (jd 2 j') w"
  by (auto simp: set_package_version_def read_text_def split: option.splits sum.splits)

lemma set_version_steps:
  assumes "files w UNITY_PACKAGE_JSON_PATH = Some mraw"
    and "jl (universal_newlines mraw) = Inr j"
    and "manifest_update j (v @ ''-preview'') = Inr j'"
  shows "\<exists>w4. set_version jl jd pv (Some v) rt w
                 = set_academy_version_string (v @ ''-preview'') w4
              \<and> files w4 =
                  (files (set_version_loop DIRECTORIES
                     (PYTHON_VERSION_FILE_TEMPLATE (escape_non_none pv) (escape_non_none rt))
                     pv w))
                  (UNITY_PACKAGE_JSON_PATH \<mapsto> jd 2 j')"
proof -
  let ?w1 = "set_version_loop DIRECTORIES
               (PYTHON_VERSION_FILE_TEMPLATE (escape_non_none pv) (escape_non_none rt)) pv w"
  let ?w2 = "print (''Setting package version to '' @ (v @ ''-preview'') @ '' in ''
                      @ UNITY_PACKAGE_JSON_PATH) ?w1"
  let ?w3 = "write_text UNITY_PACKAGE_JSON_PATH (jd 2 j') ?w2"
  let ?w4 = "print (''Setting package version to '' @ (v @ ''-preview'') @ '' in ''
                      @ ACADEMY_PATH) ?w3"
  have "files ?w2 UNITY_PACKAGE_JSON_PATH = Some mraw"
    using assms(1) by (simp add: set_version_loop_manifest)
  from set_package_version_ok [where jl = jl and jd = jd, OF this assms(2,3)]
  have "set_version jl jd pv (Some v) rt w = set_academy_version_string (v @ ''-preview'') ?w4"
    by (simp add: set_version_def Let_def)
  moreover have "files ?w4 = (files ?w1)(UNITY_PACKAGE_JSON_PATH \<mapsto> jd 2 j')"
    by simp
  ultimately show ?thesis by blast
qed

lemma manifest_update_dict:
  "manifest_update (JDict kvs) nv =
     Inr (JDict (if ''version'' \<in> set (map fst kvs)
                 then AList.update ''version'' (JStr nv) kvs else kvs))"
  by (simp add: manifest_update_def)


section \<open>The step on the native source file\<close>

lemma set_academy_version_string_unfold:
  "files w ACADEMY_PATH = Some araw \<Longrightarrow>
     set_academy_version_string nv w =
       (case academy_loop nv (readlines (universal_newlines araw)) of
          Inl e \<Rightarrow> (Inl e, w)
        | Inr (lines, found) \<Rightarrow>
            if found \<noteq> 1 then (Inl (RuntimeError (found_message found)), w)
            else (Inr (), write_text ACADEMY_PATH (concat lines) w))"
  by (simp add: set_academy_version_string_def read_text_def)

lemma set_academy_version_string_raise:
  "fst (set_academy_version_string nv w) = Inl e \<Longrightarrow>
     snd (set_academy_version_string nv w) = w"
  by (auto simp: set_academy_version_string_def split: sum.splits prod.splits if_splits)

lemma set_academy_version_string_count:
  assumes "files w ACADEMY_PATH = Some araw"
    and "marker_count (readlines (universal_newlines araw)) \<noteq> 1"
    and "\<forall>l\<in>set (readlines (universal_newlines araw)).
           str_contains l needle \<longrightarrow> length (split_parts l '' = '') = 2"
  shows "set_academy_version_string nv w =
           (Inl (RuntimeError
                  (found_message (marker_count (readlines (universal_newlines araw))))), w)"
proof -
  from academy_loop_well_formed [OF assms(3), of nv] obtain ls' where
    "academy_loop nv (readlines (universal_newlines araw))
       = Inr (ls', marker_count (readlines (universal_newlines araw)))" ..
  with assms(2) show ?thesis
    by (simp add: set_academy_version_string_unfold [OF assms(1)])
qed




section \<open>A second run of the script\<close>

text \<open>
  The lines that the step on the native source file writes are read back as the same
  lines when the new version holds no line break.
\<close>

lemma text_lines_Cons:
  "text_lines (l # ls) =
     (l \<noteq> [] \<and> CHR 0x0A \<notin> set (butlast l) \<and> (ls \<noteq> [] \<longrightarrow> last l = CHR 0x0A)
      \<and> text_lines ls)"
  by (cases ls) auto

lemma split_left_no_feed:
  assumes "split_parts l '' = '' = [left, right]" and "CHR 0x0A \<notin> set (butlast l)"
  shows "CHR 0x0A \<notin> set left"
proof -
  from split_parts_first [OF assms(1)] obtain r where l: "l = left @ '' = '' @ r" by blast
  have "butlast l = left @ butlast ('' = '' @ r)"
    unfolding l by (simp add: butlast_append)
  with assms(2) show ?thesis by simp
qed

lemma split_left_subset:
  assumes "split_parts l '' = '' = [left, right]"
  shows "set left \<subseteq> set l"
proof -
  from split_parts_first [OF assms(1)] obtain r where l: "l = left @ '' = '' @ r" by blast
  then show ?thesis by auto
qed

lemma academy_loop_text_lines:
  "academy_loop nv ls = Inr (ls1, n) \<Longrightarrow> text_lines ls \<Longrightarrow> CHR 0x0A \<notin> set nv \<Longrightarrow>
     text_lines ls1"
proof (induction ls arbitrary: ls1 n)
  case Nil
  then show ?case by simp
next
  case (Cons l ls)
  from Cons.prems(2) have tl: "text_lines ls" and l: "l \<noteq> []" "CHR 0x0A \<notin> set (butlast l)"
    and la: "ls \<noteq> [] \<longrightarrow> last l = CHR 0x0A"
    by (simp_all add: text_lines_Cons)
  show ?case
  proof (cases "str_contains l needle")
    case False
    with Cons.prems(1) obtain ks k where r: "academy_loop nv ls = Inr (ks, k)"
      and ls1: "ls1 = l # ks"
      by (auto simp: academy_loop_other split: sum.splits)
    from academy_loop_count [OF r] have "length ks = length ls" by simp
    then have "ks \<noteq> [] \<longleftrightarrow> ls \<noteq> []" by auto
    with Cons.IH [OF r tl Cons.prems(3)] l la ls1 show ?thesis
      by (simp add: text_lines_Cons)
  next
    case True
    show ?thesis
    proof (cases "length (split_parts l '' = '') = 2")
      case False
      with True Cons.prems(1) show ?thesis by (simp add: academy_loop_bad)
    next
      case t: True
      from two_parts [OF t] obtain left right where
        s: "split_parts l '' = '' = [left, right]" by blast
      with True Cons.prems(1) obtain ks k where r: "academy_loop nv ls = Inr (ks, k)"
        and ls1: "ls1 = (left @ '' = \"'' @ nv @ ''\";\<newline>'') # ks"
        by (auto simp: academy_loop_marker split: sum.splits)
      have b: "butlast (left @ '' = \"'' @ nv @ ''\";\<newline>'') = left @ '' = \"'' @ nv @ ''\";''"
        by (simp add: butlast_append)
      from split_left_no_feed [OF s l(2)] Cons.prems(3)
      have "CHR 0x0A \<notin> set (butlast (left @ '' = \"'' @ nv @ ''\";\<newline>''))"
        unfolding b by simp
      with Cons.IH [OF r tl Cons.prems(3)] ls1 show ?thesis
        by (simp add: text_lines_Cons)
    qed
  qed
qed

lemma academy_loop_no_return:
  "academy_loop nv ls = Inr (ls1, n) \<Longrightarrow> CHR 0x0D \<notin> set (concat ls) \<Longrightarrow>
   CHR 0x0D \<notin> set nv \<Longrightarrow> CHR 0x0D \<notin> set (concat ls1)"
proof (induction ls arbitrary: ls1 n)
  case Nil
  then show ?case by simp
next
  case (Cons l ls)
  from Cons.prems(2) have cl: "CHR 0x0D \<notin> set l" and cls: "CHR 0x0D \<notin> set (concat ls)"
    by simp_all
  show ?case
  proof (cases "str_contains l needle")
    case False
    with Cons.prems(1) obtain ks k where r: "academy_loop nv ls = Inr (ks, k)"
      and ls1: "ls1 = l # ks"
      by (auto simp: academy_loop_other split: sum.splits)
    from Cons.IH [OF r cls Cons.prems(3)] cl ls1 show ?thesis by simp
  next
    case True
    show ?thesis
    proof (cases "length (split_parts l '' = '') = 2")
      case False
      with True Cons.prems(1) show ?thesis by (simp add: academy_loop_bad)
    next
      case t: True
      from two_parts [OF t] obtain left right where
        s: "split_parts l '' = '' = [left, right]" by blast
      with True Cons.prems(1) obtain ks k where r: "academy_loop nv ls = Inr (ks, k)"
        and ls1: "ls1 = (left @ '' = \"'' @ nv @ ''\";\<newline>'') # ks"
        by (auto simp: academy_loop_marker split: sum.splits)
      from split_left_subset [OF s] cl have "CHR 0x0D \<notin> set left" by auto
      with Cons.IH [OF r cls Cons.prems(3)] Cons.prems(3) ls1 show ?thesis by simp
    qed
  qed
qed

lemma academy_loop_reread:
  assumes "academy_loop nv (readlines (universal_newlines araw)) = Inr (ls1, n)"
    and "CHR 0x0A \<notin> set nv" and "CHR 0x0D \<notin> set nv"
  shows "readlines (universal_newlines (concat ls1)) = ls1"
proof -
  have "CHR 0x0D \<notin> set (concat (readlines (universal_newlines araw)))"
    by (simp add: concat_readlines universal_newlines_no_return)
  from academy_loop_no_return [OF assms(1) this assms(3)]
  have "universal_newlines (concat ls1) = concat ls1"
    by (rule universal_newlines_id)
  moreover from academy_loop_text_lines [OF assms(1) text_lines_readlines assms(2)]
  have "readlines (concat ls1) = ls1" by (rule readlines_concat)
  ultimately show ?thesis by simp
qed

lemma manifest_update_idem:
  "manifest_update j nv = Inr j' \<Longrightarrow> manifest_update j' nv = Inr j'"
proof (cases j)
  case (JDict kvs)
  assume "manifest_update j nv = Inr j'"
  with JDict have j': "j' = JDict (if ''version'' \<in> set (map fst kvs)
                 then AList.update ''version'' (JStr nv) kvs else kvs)"
    by (simp add: manifest_update_dict)
  show ?thesis
    unfolding j' by (simp add: manifest_update_dict update_keys)
qed (auto simp: manifest_update_def split: if_splits)

text \<open>What a run of \<open>set_version\<close> leaves in the manifest and in the native source file.\<close>

lemma set_package_version_raise:
  "fst (set_package_version jl jd nv w) = Inl e \<Longrightarrow> snd (set_package_version jl jd nv w) = w"
  by (auto simp: set_package_version_def split: sum.splits)

lemma set_academy_version_string_success:
  "set_academy_version_string nv w = (Inr u, w1) \<Longrightarrow>
     \<exists>araw ls1. files w ACADEMY_PATH = Some araw
       \<and> academy_loop nv (readlines (universal_newlines araw)) = Inr (ls1, 1)
       \<and> w1 = write_text ACADEMY_PATH (concat ls1) w"
  by (auto simp: set_academy_version_string_def read_text_def
           split: option.splits sum.splits prod.splits if_splits)

lemma set_version_Some:
  "set_version jl jd pv (Some v) rt w =
     (case set_package_version jl jd (v @ ''-preview'')
             (print (''Setting package version to '' @ (v @ ''-preview'') @ '' in ''
                       @ UNITY_PACKAGE_JSON_PATH)
                (set_version_loop DIRECTORIES
                   (PYTHON_VERSION_FILE_TEMPLATE (escape_non_none pv) (escape_non_none rt))
                   pv w)) of
        (Inl e, w3) \<Rightarrow> (Inl e, w3)
      | (Inr u, w3) \<Rightarrow>
          set_academy_version_string (v @ ''-preview'')
            (print (''Setting package version to '' @ (v @ ''-preview'') @ '' in ''
                      @ ACADEMY_PATH) w3))"
  by (simp only: set_version_def Let_def option.case)

lemma set_version_None:
  "set_version jl jd pv None rt w =
     (Inr (), set_version_loop DIRECTORIES
                (PYTHON_VERSION_FILE_TEMPLATE (escape_non_none pv) (escape_non_none rt)) pv w)"
  by (simp add: set_version_def Let_def)

lemma set_version_success:
  assumes "set_version jl jd pv (Some v) rt w = (Inr u, w1)"
  shows "\<exists>mraw j j' araw ls1.
           files w UNITY_PACKAGE_JSON_PATH = Some mraw
         \<and> jl (universal_newlines mraw) = Inr j
         \<and> manifest_update j (v @ ''-preview'') = Inr j'
         \<and> files w ACADEMY_PATH = Some araw
         \<and> academy_loop (v @ ''-preview'') (readlines (universal_newlines araw)) = Inr (ls1, 1)
         \<and> files w1 UNITY_PACKAGE_JSON_PATH = Some (jd 2 j')
         \<and> files w1 ACADEMY_PATH = Some (concat ls1)"
proof -
  let ?w2 = "print (''Setting package version to '' @ (v @ ''-preview'') @ '' in ''
                       @ UNITY_PACKAGE_JSON_PATH)
                (set_version_loop DIRECTORIES
                   (PYTHON_VERSION_FILE_TEMPLATE (escape_non_none pv) (escape_non_none rt))
                   pv w)"
  obtain r w3 where p: "set_package_version jl jd (v @ ''-preview'') ?w2 = (r, w3)"
    by (cases "set_package_version jl jd (v @ ''-preview'') ?w2") blast
  let ?w4 = "print (''Setting package version to '' @ (v @ ''-preview'') @ '' in ''
                      @ ACADEMY_PATH) w3"
  from assms p obtain u' where r: "r = Inr u'"
    and a: "set_academy_version_string (v @ ''-preview'') ?w4 = (Inr u, w1)"
    by (cases r) (simp_all add: set_version_Some)
  from set_package_version_cases [OF p [unfolded r]] obtain mraw j j' where
    m: "files ?w2 UNITY_PACKAGE_JSON_PATH = Some mraw"
      "jl (universal_newlines mraw) = Inr j"
      "manifest_update j (v @ ''-preview'') = Inr j'"
      and w3: "w3 = write_text UNITY_PACKAGE_JSON_PATH (jd 2 j') ?w2"
    by blast
  from set_academy_version_string_success [OF a] obtain araw ls1 where
    f: "files ?w4 ACADEMY_PATH = Some araw"
    and l: "academy_loop (v @ ''-preview'') (readlines (universal_newlines araw)) = Inr (ls1, 1)"
    and w1: "w1 = write_text ACADEMY_PATH (concat ls1) ?w4"
    by blast
  from m(1) have "files w UNITY_PACKAGE_JSON_PATH = Some mraw"
    by (simp add: set_version_loop_manifest)
  moreover from f have "files w ACADEMY_PATH = Some araw"
    using academy_not_manifest by (simp add: w3 set_version_loop_academy)
  moreover have "files w1 UNITY_PACKAGE_JSON_PATH = Some (jd 2 j')"
    using academy_not_manifest by (simp add: w1 w3)
  moreover have "files w1 ACADEMY_PATH = Some (concat ls1)"
    by (simp add: w1)
  ultimately show ?thesis using m(2,3) l by blast
qed

lemma set_version_manifest_cases:
  "files (snd (set_version jl jd pv cv rt w)) UNITY_PACKAGE_JSON_PATH
     = files w UNITY_PACKAGE_JSON_PATH
   \<or> (\<exists>v mraw j j'. cv = Some v
         \<and> files w UNITY_PACKAGE_JSON_PATH = Some mraw
         \<and> jl (universal_newlines mraw) = Inr j
         \<and> manifest_update j (v @ ''-preview'') = Inr j'
         \<and> files (snd (set_version jl jd pv cv rt w)) UNITY_PACKAGE_JSON_PATH
             = Some (jd 2 j'))"
proof (cases cv)
  case None
  then show ?thesis by (simp add: set_version_None set_version_loop_manifest)
next
  case (Some v)
  let ?w2 = "print (''Setting package version to '' @ (v @ ''-preview'') @ '' in ''
                       @ UNITY_PACKAGE_JSON_PATH)
                (set_version_loop DIRECTORIES
                   (PYTHON_VERSION_FILE_TEMPLATE (escape_non_none pv) (escape_non_none rt))
                   pv w)"
  obtain r w3 where p: "set_package_version jl jd (v @ ''-preview'') ?w2 = (r, w3)"
    by (cases "set_package_version jl jd (v @ ''-preview'') ?w2") blast
  show ?thesis
  proof (cases r)
    case (Inl e)
    with p set_package_version_raise [of jl jd "v @ ''-preview''" ?w2 e]
    have "w3 = ?w2" by simp
    with p Inl Some show ?thesis
      by (simp add: set_version_Some set_version_loop_manifest)
  next
    case (Inr u)
    from set_package_version_cases [OF p [unfolded Inr]] obtain mraw j j' where
      m: "files ?w2 UNITY_PACKAGE_JSON_PATH = Some mraw"
        "jl (universal_newlines mraw) = Inr j"
        "manifest_update j (v @ ''-preview'') = Inr j'"
      and w3: "w3 = write_text UNITY_PACKAGE_JSON_PATH (jd 2 j') ?w2"
      by blast
    from m(1) have f: "files w UNITY_PACKAGE_JSON_PATH = Some mraw"
      by (simp add: set_version_loop_manifest)
    have "files (snd (set_version jl jd pv cv rt w)) UNITY_PACKAGE_JSON_PATH
             = Some (jd 2 j')"
      using academy_not_manifest p Inr Some
      by (simp add: set_version_Some set_academy_version_string_files w3)
    with f m(2,3) Some show ?thesis by blast
  qed
qed

lemma set_version_academy_cases:
  "files (snd (set_version jl jd pv cv rt w)) ACADEMY_PATH = files w ACADEMY_PATH
   \<or> (\<exists>v araw ls. cv = Some v
         \<and> files w ACADEMY_PATH = Some araw
         \<and> academy_loop (v @ ''-preview'') (readlines (universal_newlines araw)) = Inr (ls, 1)
         \<and> files (snd (set_version jl jd pv cv rt w)) ACADEMY_PATH = Some (concat ls))"
proof (cases cv)
  case None
  then show ?thesis by (simp add: set_version_None set_version_loop_academy)
next
  case (Some v)
  let ?w2 = "print (''Setting package version to '' @ (v @ ''-preview'') @ '' in ''
                       @ UNITY_PACKAGE_JSON_PATH)
                (set_version_loop DIRECTORIES
                   (PYTHON_VERSION_FILE_TEMPLATE (escape_non_none pv) (escape_non_none rt))
                   pv w)"
  obtain r w3 where p: "set_package_version jl jd (v @ ''-preview'') ?w2 = (r, w3)"
    by (cases "set_package_version jl jd (v @ ''-preview'') ?w2") blast
  from set_package_version_files [OF academy_not_manifest, of jl jd "v @ ''-preview''" ?w2] p
  have f3: "files w3 ACADEMY_PATH = files w ACADEMY_PATH"
    by (simp add: set_version_loop_academy)
  show ?thesis
  proof (cases r)
    case (Inl e)
    with p Some f3 show ?thesis by (simp add: set_version_Some)
  next
    case (Inr u)
    let ?w4 = "print (''Setting package version to '' @ (v @ ''-preview'') @ '' in ''
                      @ ACADEMY_PATH) w3"
    from p Inr Some have s: "set_version jl jd pv cv rt w
        = set_academy_version_string (v @ ''-preview'') ?w4"
      by (simp add: set_version_Some)
    obtain r' w5 where a: "set_academy_version_string (v @ ''-preview'') ?w4 = (r', w5)"
      by (cases "set_academy_version_string (v @ ''-preview'') ?w4") blast
    show ?thesis
    proof (cases r')
      case (Inl e)
      with a set_academy_version_string_raise [of "v @ ''-preview''" ?w4 e]
      have "w5 = ?w4" by simp
      with a s f3 show ?thesis by simp
    next
      case i: (Inr u')
      from set_academy_version_string_success [OF a [unfolded i]] obtain araw ls1 where
        f: "files ?w4 ACADEMY_PATH = Some araw"
        and l: "academy_loop (v @ ''-preview'') (readlines (universal_newlines araw))
                  = Inr (ls1, 1)"
        and w5: "w5 = write_text ACADEMY_PATH (concat ls1) ?w4"
        by blast
      from f f3 have "files w ACADEMY_PATH = Some araw" by simp
      moreover have "files (snd (set_version jl jd pv cv rt w)) ACADEMY_PATH
                       = Some (concat ls1)"
        using s a w5 by simp
      ultimately show ?thesis using l Some by blast
    qed
  qed
qed

section \<open>The Version Extractor\<close>

text \<open>
  Claim C8, as amended. On a file that exists, \<open>extract_version_string\<close> leaves the
  files and the console as they are; it returns \<open>None\<close> when no line starts with the
  marker; and when the first line that starts with the marker holds no further
  occurrence of the marker, it returns the rest of that line with the surrounding
  whitespace removed.
\<close>

theorem extract_version_string_token:
  "files w filename = Some raw \<Longrightarrow>
     snd (extract_version_string filename w) = w \<and>
     ((\<forall>l\<in>set (readlines (universal_newlines raw)). \<not> startswith l VERSION_LINE_START)
        \<longrightarrow> fst (extract_version_string filename w) = Inr None) \<and>
     (\<forall>pre rest post.
        readlines (universal_newlines raw) = pre @ (VERSION_LINE_START @ rest) # post
        \<and> (\<forall>k\<in>set pre. \<not> startswith k VERSION_LINE_START)
        \<and> \<not> str_contains rest VERSION_LINE_START
        \<longrightarrow> fst (extract_version_string filename w) = Inr (Some (strip rest)))"
proof (intro conjI allI impI)
  show "snd (extract_version_string filename w) = w"
    by (rule extract_version_string_snd)
next
  assume "files w filename = Some raw"
    and "\<forall>l\<in>set (readlines (universal_newlines raw)). \<not> startswith l VERSION_LINE_START"
  then show "fst (extract_version_string filename w) = Inr None"
    by (simp add: extract_version_string_files extract_version_lines_none)
next
  fix pre rest post
  assume f: "files w filename = Some raw"
    and h: "readlines (universal_newlines raw) = pre @ (VERSION_LINE_START @ rest) # post
        \<and> (\<forall>k\<in>set pre. \<not> startswith k VERSION_LINE_START)
        \<and> \<not> str_contains rest VERSION_LINE_START"
  from h have "extract_version_lines (readlines (universal_newlines raw))
      = Some (strip (str_replace (VERSION_LINE_START @ rest) VERSION_LINE_START ''''))"
    by (simp add: extract_version_lines_first)
  with h f show "fst (extract_version_string filename w) = Inr (Some (strip rest))"
    by (simp add: extract_version_string_files marker_once)
qed

lemma one_version_lines:
  "readlines (universal_newlines ''# c\<newline>__version__ = \"1.2.3\"\<newline>'')
     = [''# c\<newline>''] @ (VERSION_LINE_START @ ''\"1.2.3\"\<newline>'') # []"
  by (simp add: VERSION_LINE_START_def)

text \<open>The theorem at a file with a comment line before the version line.\<close>

theorem extract_version_string_token_witness:
  "files one_version_world ''f'' = Some ''# c\<newline>__version__ = \"1.2.3\"\<newline>'' \<and>
   fst (extract_version_string ''f'' one_version_world) = Inr (Some ''\"1.2.3\"'') \<and>
   snd (extract_version_string ''f'' one_version_world) = one_version_world"
proof -
  have f: "files one_version_world ''f'' = Some ''# c\<newline>__version__ = \"1.2.3\"\<newline>''"
    by (simp add: one_version_world_def)
  have pre: "\<forall>k\<in>set [''# c\<newline>'']. \<not> startswith k VERSION_LINE_START"
    by (simp add: startswith_def VERSION_LINE_START_def)
  have rest: "\<not> str_contains ''\"1.2.3\"\<newline>'' VERSION_LINE_START"
    by (simp add: startswith_def VERSION_LINE_START_def)
  have s: "strip ''\"1.2.3\"\<newline>'' = ''\"1.2.3\"''"
    by (simp add: strip_def isspace_def)
  from extract_version_string_token [OF f] one_version_lines pre rest s f
  show ?thesis by metis
qed

text \<open>
  Claim C8 as written fails where the token holds the marker again: the text behind
  the leading marker is \<^verbatim>\<open>1__version__ = 2\<close>, and the function returns \<^verbatim>\<open>12\<close>.
\<close>

theorem extract_version_string_token_counterexample:
  "fst (extract_version_string ''f'' marker_twice_world) = Inr (Some ''12'')
   \<and> ''12'' \<noteq> strip ''1__version__ = 2\<newline>''"
  by code_simp

lemma VERSION_LINE_START_nonempty: "VERSION_LINE_START \<noteq> []"
  by (simp add: VERSION_LINE_START_def)

text \<open>
  Claim C9. For the first line \<open>l\<close> that starts with the marker, the function returns
  \<open>l\<close> with the marker replaced by the empty string and then stripped. The
  replacement deletes every occurrence that the scan from the left finds: it deletes
  the first occurrence and goes on behind it, and it returns a text without the
  marker as it is. So there is a line whose token holds the marker and for which the
  result is not the stripped text behind the leading marker.
\<close>

theorem extract_version_string_replaces_all:
  "files w filename = Some raw \<Longrightarrow>
   readlines (universal_newlines raw) = pre @ l # post \<Longrightarrow>
   \<forall>k\<in>set pre. \<not> startswith k VERSION_LINE_START \<Longrightarrow>
   startswith l VERSION_LINE_START \<Longrightarrow>
     fst (extract_version_string filename w)
       = Inr (Some (strip (str_replace l VERSION_LINE_START '''')))
     \<and> (\<forall>a b. \<not> str_contains (a @ butlast VERSION_LINE_START) VERSION_LINE_START
           \<longrightarrow> str_replace (a @ VERSION_LINE_START @ b) VERSION_LINE_START ''''
                 = a @ str_replace b VERSION_LINE_START '''')
     \<and> (\<forall>s. \<not> str_contains s VERSION_LINE_START
           \<longrightarrow> str_replace s VERSION_LINE_START '''' = s)
     \<and> (\<exists>rest. str_contains rest VERSION_LINE_START
           \<and> strip (str_replace (VERSION_LINE_START @ rest) VERSION_LINE_START '''')
                 \<noteq> strip rest)"
proof (intro conjI allI impI)
  assume "files w filename = Some raw"
    and "readlines (universal_newlines raw) = pre @ l # post"
    and "\<forall>k\<in>set pre. \<not> startswith k VERSION_LINE_START"
    and "startswith l VERSION_LINE_START"
  then show "fst (extract_version_string filename w)
       = Inr (Some (strip (str_replace l VERSION_LINE_START '''')))"
    by (simp add: extract_version_string_files extract_version_lines_first)
next
  fix a b
  assume "\<not> str_contains (a @ butlast VERSION_LINE_START) VERSION_LINE_START"
  from str_replace_first [OF VERSION_LINE_START_nonempty this, of b "''''"]
  show "str_replace (a @ VERSION_LINE_START @ b) VERSION_LINE_START ''''
                 = a @ str_replace b VERSION_LINE_START ''''"
    by simp
next
  fix s
  assume "\<not> str_contains s VERSION_LINE_START"
  then show "str_replace s VERSION_LINE_START '''' = s"
    by (rule str_replace_absent [OF VERSION_LINE_START_nonempty])
next
  have "str_contains ''a__version__ = b\<newline>'' VERSION_LINE_START
           \<and> strip (str_replace (VERSION_LINE_START @ ''a__version__ = b\<newline>'')
                      VERSION_LINE_START '''')
                 \<noteq> strip ''a__version__ = b\<newline>''"
    by code_simp
  then show "\<exists>rest. str_contains rest VERSION_LINE_START
           \<and> strip (str_replace (VERSION_LINE_START @ rest) VERSION_LINE_START '''')
                 \<noteq> strip rest"
    by (rule exI)
qed

text \<open>The theorem at a one-line file whose token holds the marker.\<close>

theorem extract_version_string_replaces_all_witness:
  "files marker_again_world ''g'' = Some ''__version__ = a__version__ = b\<newline>'' \<and>
   readlines (universal_newlines ''__version__ = a__version__ = b\<newline>'')
     = [] @ ''__version__ = a__version__ = b\<newline>'' # [] \<and>
   startswith ''__version__ = a__version__ = b\<newline>'' VERSION_LINE_START \<and>
   fst (extract_version_string ''g'' marker_again_world) = Inr (Some ''ab'')"
proof -
  have f: "files marker_again_world ''g'' = Some ''__version__ = a__version__ = b\<newline>''"
    by (simp add: marker_again_world_def)
  have r: "readlines (universal_newlines ''__version__ = a__version__ = b\<newline>'')
     = [] @ ''__version__ = a__version__ = b\<newline>'' # []"
    by simp
  have p: "\<forall>k\<in>set []. \<not> startswith k VERSION_LINE_START" by simp
  have s: "startswith ''__version__ = a__version__ = b\<newline>'' VERSION_LINE_START"
    by code_simp
  have v: "strip (str_replace ''__version__ = a__version__ = b\<newline>'' VERSION_LINE_START '''')
             = ''ab''"
    by code_simp
  from extract_version_string_replaces_all [OF f r p s] f r s v
  show ?thesis by simp
qed

section \<open>The Consistency Checker\<close>

lemma update_fresh:
  "k \<notin> fst ` set al \<Longrightarrow> AList.update k v al = al @ [(k, v)]"
  by (induction al) auto

lemma fold_update_fresh:
  "distinct ds \<Longrightarrow> set ds \<inter> fst ` set al = {} \<Longrightarrow>
     fold (\<lambda>d. AList.update d (tok d)) ds al = al @ map (\<lambda>d. (d, tok d)) ds"
proof (induction ds arbitrary: al)
  case Nil
  then show ?case by simp
next
  case (Cons d ds)
  from Cons.prems have fresh: "d \<notin> fst ` set al" by auto
  have "set ds \<inter> fst ` set (al @ [(d, tok d)]) = {}"
    using Cons.prems by auto
  with Cons.IH [of "al @ [(d, tok d)]"] Cons.prems(1)
  have "fold (\<lambda>d. AList.update d (tok d)) ds (al @ [(d, tok d)])
          = (al @ [(d, tok d)]) @ map (\<lambda>d. (d, tok d)) ds"
    by simp
  then show ?case by (simp add: update_fresh [OF fresh])
qed

lemma check_versions_loop_tokens:
  "\<forall>d\<in>set ds. fst (extract_version_string (os_path_join d ''__init__.py'') w) = Inr (tok d)
   \<Longrightarrow> \<exists>w'. check_versions_loop ds vbd w
              = (Inr (fold (\<lambda>d. AList.update d (tok d)) ds vbd), w')
            \<and> files w' = files w"
proof (induction ds arbitrary: vbd w)
  case Nil
  then show ?case by simp
next
  case (Cons d ds)
  let ?p = "os_path_join d ''__init__.py''"
  let ?w2 = "print (''Found version '' @ str_of_opt (tok d) @ '' for '' @ d) w"
  from Cons.prems have e: "extract_version_string ?p w = (Inr (tok d), w)"
    by (simp add: prod_eq_iff extract_version_string_snd)
  have "\<forall>d\<in>set ds. fst (extract_version_string (os_path_join d ''__init__.py'') ?w2)
          = Inr (tok d)"
    using Cons.prems by simp
  from Cons.IH [OF this, of "AList.update d (tok d) vbd"]
  obtain w' where
    "check_versions_loop ds (AList.update d (tok d) vbd) ?w2
       = (Inr (fold (\<lambda>d. AList.update d (tok d)) ds (AList.update d (tok d) vbd)), w')"
    and "files w' = files ?w2"
    by blast
  then show ?case using e by simp
qed

lemma distinct_DIRECTORIES: "distinct DIRECTORIES"
  by (simp add: DIRECTORIES_def)

lemma check_versions_result:
  assumes "\<forall>d\<in>set DIRECTORIES.
             fst (extract_version_string (os_path_join d ''__init__.py'') w) = Inr (tok d)"
  shows "fst (check_versions w)
           = Inr (card (tok ` set DIRECTORIES) = 1 \<and> None \<notin> tok ` set DIRECTORIES)"
    and "files (snd (check_versions w)) = files w"
proof -
  from check_versions_loop_tokens [OF assms, of "[]"]
  obtain w' where l: "check_versions_loop DIRECTORIES [] w
       = (Inr (fold (\<lambda>d. AList.update d (tok d)) DIRECTORIES []), w')"
    and f: "files w' = files w"
    by blast
  have "fold (\<lambda>d. AList.update d (tok d)) DIRECTORIES [] = map (\<lambda>d. (d, tok d)) DIRECTORIES"
    using fold_update_fresh [OF distinct_DIRECTORIES, of "[]" tok] by simp
  then have v: "set (map snd (fold (\<lambda>d. AList.update d (tok d)) DIRECTORIES []))
                  = tok ` set DIRECTORIES"
    by (simp add: image_image comp_def)
  show "fst (check_versions w)
           = Inr (card (tok ` set DIRECTORIES) = 1 \<and> None \<notin> tok ` set DIRECTORIES)"
    unfolding check_versions_def l by (simp only: v Let_def prod.case sum.case) simp
  show "files (snd (check_versions w)) = files w"
    unfolding check_versions_def l by (simp only: v Let_def prod.case sum.case) (simp add: f)
qed

lemma check_versions_loop_files:
  "files (snd (check_versions_loop ds vbd w)) = files w"
proof (induction ds arbitrary: vbd w)
  case Nil
  then show ?case by simp
next
  case (Cons d ds)
  show ?case
  proof (cases "fst (extract_version_string (os_path_join d ''__init__.py'') w)")
    case (Inl e)
    then have "extract_version_string (os_path_join d ''__init__.py'') w = (Inl e, w)"
      by (simp add: prod_eq_iff extract_version_string_snd)
    then show ?thesis by simp
  next
    case (Inr v)
    then have "extract_version_string (os_path_join d ''__init__.py'') w = (Inr v, w)"
      by (simp add: prod_eq_iff extract_version_string_snd)
    then show ?thesis by (simp add: Cons.IH)
  qed
qed

lemma check_versions_files: "files (snd (check_versions w)) = files w"
proof -
  obtain r w1 where l: "check_versions_loop DIRECTORIES [] w = (r, w1)"
    by (cases "check_versions_loop DIRECTORIES [] w")
  with check_versions_loop_files [of DIRECTORIES "[]" w] have "files w1 = files w"
    by simp
  then show ?thesis
    unfolding check_versions_def l by (cases r) (simp_all add: Let_def)
qed


text \<open>
  Claim C1. When every component version file can be read, with \<open>tok d\<close> the token
  that \<open>extract_version_string\<close> finds for directory \<open>d\<close>, \<open>check_versions\<close> does not
  raise; it returns \<open>True\<close> exactly when the set of the tokens has one member and that
  member is not \<open>None\<close>, that is when all tokens are one and the same string; and it
  returns \<open>False\<close> when two tokens differ or one of them is \<open>None\<close>.
\<close>

theorem check_versions_consistent:
  "\<forall>d\<in>set DIRECTORIES.
      fst (extract_version_string (os_path_join d ''__init__.py'') w) = Inr (tok d) \<Longrightarrow>
   fst (check_versions w)
     = Inr (card (tok ` set DIRECTORIES) = 1 \<and> None \<notin> tok ` set DIRECTORIES)
   \<and> (fst (check_versions w) = Inr True
        \<longleftrightarrow> (\<exists>t. \<forall>d\<in>set DIRECTORIES. tok d = Some t))
   \<and> ((\<exists>d\<in>set DIRECTORIES. \<exists>d'\<in>set DIRECTORIES. tok d \<noteq> tok d')
          \<or> (\<exists>d\<in>set DIRECTORIES. tok d = None)
        \<longrightarrow> fst (check_versions w) = Inr False)"
proof -
  assume a: "\<forall>d\<in>set DIRECTORIES.
      fst (extract_version_string (os_path_join d ''__init__.py'') w) = Inr (tok d)"
  let ?T = "tok ` set DIRECTORIES"
  have r: "fst (check_versions w) = Inr (card ?T = 1 \<and> None \<notin> ?T)"
    by (rule check_versions_result(1) [OF a])
  obtain d0 where d0: "d0 \<in> set DIRECTORIES" by (auto simp: DIRECTORIES_def)
  have one: "(card ?T = 1 \<and> None \<notin> ?T) \<longleftrightarrow> (\<exists>t. \<forall>d\<in>set DIRECTORIES. tok d = Some t)"
  proof
    assume h: "card ?T = 1 \<and> None \<notin> ?T"
    then obtain x where x: "?T = {x}" by (auto simp: card_1_singleton_iff)
    with h obtain t where "x = Some t" by (cases x) auto
    with x show "\<exists>t. \<forall>d\<in>set DIRECTORIES. tok d = Some t" by auto
  next
    assume "\<exists>t. \<forall>d\<in>set DIRECTORIES. tok d = Some t"
    then obtain t where t: "\<forall>d\<in>set DIRECTORIES. tok d = Some t" ..
    with d0 have "?T = {Some t}" by force
    then show "card ?T = 1 \<and> None \<notin> ?T" by simp
  qed
  have differ: "(\<exists>d\<in>set DIRECTORIES. \<exists>d'\<in>set DIRECTORIES. tok d \<noteq> tok d')
          \<or> (\<exists>d\<in>set DIRECTORIES. tok d = None)
        \<Longrightarrow> \<not> (\<exists>t. \<forall>d\<in>set DIRECTORIES. tok d = Some t)"
    by (metis option.distinct(1))
  show ?thesis using r one differ by simp
qed

text \<open>The theorem at three files with the version \<^verbatim>\<open>"0.16.0"\<close>.\<close>

theorem check_versions_consistent_witness:
  "fst (extract_version_string ''ml-agents/mlagents/trainers/__init__.py'' consistent_world)
     = Inr (Some ''\"0.16.0\"'')
   \<and> fst (extract_version_string ''ml-agents-envs/mlagents_envs/__init__.py'' consistent_world)
     = Inr (Some ''\"0.16.0\"'')
   \<and> fst (extract_version_string ''gym-unity/gym_unity/__init__.py'' consistent_world)
     = Inr (Some ''\"0.16.0\"'')
   \<and> fst (check_versions consistent_world) = Inr True"
proof -
  have a: "\<forall>d\<in>set DIRECTORIES.
      fst (extract_version_string (os_path_join d ''__init__.py'') consistent_world)
        = Inr ((\<lambda>d. Some ''\"0.16.0\"'') d)"
    unfolding DIRECTORIES_def by code_simp
  have "\<exists>t. \<forall>d\<in>set DIRECTORIES. (\<lambda>d. Some ''\"0.16.0\"'') d = Some t"
    by simp
  with check_versions_consistent [OF a]
  have "fst (check_versions consistent_world) = Inr True"
    by blast
  moreover have
    "fst (extract_version_string ''ml-agents/mlagents/trainers/__init__.py'' consistent_world)
       = Inr (Some ''\"0.16.0\"'')"
    "fst (extract_version_string ''ml-agents-envs/mlagents_envs/__init__.py'' consistent_world)
       = Inr (Some ''\"0.16.0\"'')"
    "fst (extract_version_string ''gym-unity/gym_unity/__init__.py'' consistent_world)
       = Inr (Some ''\"0.16.0\"'')"
    by code_simp+
  ultimately show ?thesis by simp
qed

section \<open>The Version Writer\<close>

text \<open>
  Claim C2. Let the component version files exist. Then for every Python version,
  native version and release tag, present or absent, and whatever the later steps
  do, \<open>set_version\<close> leaves in each component version file one and the same text: the
  template with \<open>version\<close> and \<open>release_tag\<close> filled in, each as the string between
  double quotes when it is present and as the bare word \<^verbatim>\<open>None\<close> when it is absent.
\<close>

theorem set_version_writes_template:
  "\<forall>d\<in>set DIRECTORIES. files w (os_path_join d ''__init__.py'') \<noteq> None \<Longrightarrow>
   (\<forall>d\<in>set DIRECTORIES.
      files (snd (set_version jl jd pv cv rt w)) (os_path_join d ''__init__.py'')
        = Some (''\<newline># Version of the library that will be used to upload to pypi\<newline>__version__ = ''
                @ escape_non_none pv
                @ ''\<newline>\<newline># Git tag that will be checked to determine whether to trigger upload to pypi\<newline>__release_tag__ = ''
                @ escape_non_none rt @ ''\<newline>''))
   \<and> (\<forall>s. escape_non_none (Some s) = ''\"'' @ s @ ''\"'')
   \<and> escape_non_none None = ''None''"
  using set_version_init_files [of _ jl jd pv cv rt w]
  by (simp add: PYTHON_VERSION_FILE_TEMPLATE_def)

text \<open>
  The theorem at version \<^verbatim>\<open>1.2.3\<close> with no release tag, on three component version
  files that held version \<^verbatim>\<open>0.16.0\<close>.
\<close>

theorem set_version_writes_template_witness:
  "files consistent_world ''ml-agents/mlagents/trainers/__init__.py''
     = Some ''__version__ = \"0.16.0\"\<newline>''
   \<and> files consistent_world ''ml-agents-envs/mlagents_envs/__init__.py''
     = Some ''__version__ = \"0.16.0\"\<newline>''
   \<and> files consistent_world ''gym-unity/gym_unity/__init__.py''
     = Some ''# gym\<newline>__version__ = \"0.16.0\"\<newline>''
   \<and> files (snd (set_version no_json_load no_json_dump (Some ''1.2.3'') None None
                    consistent_world))
     ''ml-agents/mlagents/trainers/__init__.py''
     = Some ''\<newline># Version of the library that will be used to upload to pypi\<newline>__version__ = \"1.2.3\"\<newline>\<newline># Git tag that will be checked to determine whether to trigger upload to pypi\<newline>__release_tag__ = None\<newline>''
   \<and> files (snd (set_version no_json_load no_json_dump (Some ''1.2.3'') None None
                    consistent_world))
     ''ml-agents-envs/mlagents_envs/__init__.py''
     = Some ''\<newline># Version of the library that will be used to upload to pypi\<newline>__version__ = \"1.2.3\"\<newline>\<newline># Git tag that will be checked to determine whether to trigger upload to pypi\<newline>__release_tag__ = None\<newline>''
   \<and> files (snd (set_version no_json_load no_json_dump (Some ''1.2.3'') None None
                    consistent_world))
     ''gym-unity/gym_unity/__init__.py''
     = Some ''\<newline># Version of the library that will be used to upload to pypi\<newline>__version__ = \"1.2.3\"\<newline>\<newline># Git tag that will be checked to determine whether to trigger upload to pypi\<newline>__release_tag__ = None\<newline>''"
proof -
  have e: "\<forall>d\<in>set DIRECTORIES.
             files consistent_world (os_path_join d ''__init__.py'') \<noteq> None"
    by (simp add: DIRECTORIES_def consistent_world_def os_path_join_def startswith_def)
  have f: "files consistent_world ''ml-agents/mlagents/trainers/__init__.py''
     = Some ''__version__ = \"0.16.0\"\<newline>''
   \<and> files consistent_world ''ml-agents-envs/mlagents_envs/__init__.py''
     = Some ''__version__ = \"0.16.0\"\<newline>''
   \<and> files consistent_world ''gym-unity/gym_unity/__init__.py''
     = Some ''# gym\<newline>__version__ = \"0.16.0\"\<newline>''"
    by (simp add: consistent_world_def)
  from set_version_writes_template
    [OF e, of no_json_load no_json_dump "Some ''1.2.3''" None None] f
  show ?thesis
    by (simp add: DIRECTORIES_def os_path_join_def startswith_def)
qed

lemma template_999_token:
  "extract_version_lines (readlines (universal_newlines
      (PYTHON_VERSION_FILE_TEMPLATE ''\"9.9.9\"'' ''None'')))
     = Some ''\"9.9.9\"''"
  by code_simp

text \<open>
  Claim C5. Let the component version files exist. After \<open>set_version\<close> with Python
  version \<^verbatim>\<open>9.9.9\<close> and no release tag, \<open>extract_version_string\<close> returns the token
  \<^verbatim>\<open>"9.9.9"\<close>, quotes included, for every component version file, and
  \<open>check_versions\<close> returns \<open>True\<close>.
\<close>

theorem set_version_round_trip:
  "\<forall>d\<in>set DIRECTORIES. files w (os_path_join d ''__init__.py'') \<noteq> None \<Longrightarrow>
   (\<forall>d\<in>set DIRECTORIES.
      fst (extract_version_string (os_path_join d ''__init__.py'')
             (snd (set_version jl jd (Some ''9.9.9'') cv None w)))
        = Inr (Some ''\"9.9.9\"''))
   \<and> fst (check_versions (snd (set_version jl jd (Some ''9.9.9'') cv None w))) = Inr True"
proof -
  let ?w = "snd (set_version jl jd (Some ''9.9.9'') cv None w)"
  have a: "\<forall>d\<in>set DIRECTORIES.
      fst (extract_version_string (os_path_join d ''__init__.py'') ?w)
        = Inr ((\<lambda>d. Some ''\"9.9.9\"'') d)"
    by (simp add: extract_version_string_files set_version_init_files template_999_token)
  obtain d0 where "d0 \<in> set DIRECTORIES" by (auto simp: DIRECTORIES_def)
  then have "(\<lambda>d. Some ''\"9.9.9\"'') ` set DIRECTORIES = {Some ''\"9.9.9\"''}"
    by force
  then have "fst (check_versions ?w) = Inr True"
    using check_versions_result(1) [OF a] by simp
  with a show ?thesis by simp
qed

text \<open>
  The theorem on three component version files that held version \<^verbatim>\<open>0.16.0\<close>, with no
  native version.
\<close>

theorem set_version_round_trip_witness:
  "files consistent_world ''ml-agents/mlagents/trainers/__init__.py''
     = Some ''__version__ = \"0.16.0\"\<newline>''
   \<and> files consistent_world ''ml-agents-envs/mlagents_envs/__init__.py''
     = Some ''__version__ = \"0.16.0\"\<newline>''
   \<and> files consistent_world ''gym-unity/gym_unity/__init__.py''
     = Some ''# gym\<newline>__version__ = \"0.16.0\"\<newline>''
   \<and> fst (extract_version_string ''ml-agents/mlagents/trainers/__init__.py''
          (snd (set_version no_json_load no_json_dump (Some ''9.9.9'') None None
                  consistent_world)))
     = Inr (Some ''\"9.9.9\"'')
   \<and> fst (extract_version_string ''ml-agents-envs/mlagents_envs/__init__.py''
          (snd (set_version no_json_load no_json_dump (Some ''9.9.9'') None None
                  consistent_world)))
     = Inr (Some ''\"9.9.9\"'')
   \<and> fst (extract_version_string ''gym-unity/gym_unity/__init__.py''
          (snd (set_version no_json_load no_json_dump (Some ''9.9.9'') None None
                  consistent_world)))
     = Inr (Some ''\"9.9.9\"'')
   \<and> fst (check_versions
          (snd (set_version no_json_load no_json_dump (Some ''9.9.9'') None None
                  consistent_world)))
     = Inr True"
proof -
  have e: "\<forall>d\<in>set DIRECTORIES.
             files consistent_world (os_path_join d ''__init__.py'') \<noteq> None"
    by (simp add: DIRECTORIES_def consistent_world_def os_path_join_def startswith_def)
  have f: "files consistent_world ''ml-agents/mlagents/trainers/__init__.py''
     = Some ''__version__ = \"0.16.0\"\<newline>''
   \<and> files consistent_world ''ml-agents-envs/mlagents_envs/__init__.py''
     = Some ''__version__ = \"0.16.0\"\<newline>''
   \<and> files consistent_world ''gym-unity/gym_unity/__init__.py''
     = Some ''# gym\<newline>__version__ = \"0.16.0\"\<newline>''"
    by (simp add: consistent_world_def)
  from set_version_round_trip [OF e, of no_json_load no_json_dump None] f
  show ?thesis
    by (simp add: DIRECTORIES_def os_path_join_def startswith_def)
qed

text \<open>
  Claim C7. Let the manifest parse to a dictionary \<open>kvs\<close> and let a native version
  \<open>v\<close> be supplied. Then the manifest step does not raise, and \<open>set_version\<close> leaves in
  the manifest file what \<^verbatim>\<open>json.dump\<close> with \<^verbatim>\<open>indent=2\<close> writes for the dictionary \<open>kvs'\<close>,
  which has the keys of \<open>kvs\<close> in the same order, the same value under every key other
  than \<^verbatim>\<open>version\<close>, the value \<open>v\<close> followed by \<^verbatim>\<open>-preview\<close> under \<^verbatim>\<open>version\<close> when \<open>kvs\<close> has
  that key, and is \<open>kvs\<close> itself when it has not. With no native version the manifest
  file stays as it was.
\<close>

theorem set_version_manifest:
  "files w UNITY_PACKAGE_JSON_PATH = Some mraw \<Longrightarrow>
   jl (universal_newlines mraw) = Inr (JDict kvs) \<Longrightarrow>
   kvs' = (if ''version'' \<in> set (map fst kvs)
           then AList.update ''version'' (JStr (v @ ''-preview'')) kvs else kvs) \<Longrightarrow>
     files (snd (set_version jl jd pv (Some v) rt w)) UNITY_PACKAGE_JSON_PATH
       = Some (jd 2 (JDict kvs'))
     \<and> fst (set_package_version jl jd (v @ ''-preview'') w) = Inr ()
     \<and> map fst kvs' = map fst kvs
     \<and> (\<forall>k. k \<noteq> ''version'' \<longrightarrow> map_of kvs' k = map_of kvs k)
     \<and> (''version'' \<in> set (map fst kvs)
          \<longrightarrow> map_of kvs' ''version'' = Some (JStr (v @ ''-preview'')))
     \<and> (''version'' \<notin> set (map fst kvs) \<longrightarrow> kvs' = kvs)
     \<and> files (snd (set_version jl jd pv None rt w)) UNITY_PACKAGE_JSON_PATH = Some mraw"
proof (intro conjI allI impI)
  assume f: "files w UNITY_PACKAGE_JSON_PATH = Some mraw"
    and l: "jl (universal_newlines mraw) = Inr (JDict kvs)"
    and k: "kvs' = (if ''version'' \<in> set (map fst kvs)
           then AList.update ''version'' (JStr (v @ ''-preview'')) kvs else kvs)"
  have u: "manifest_update (JDict kvs) (v @ ''-preview'') = Inr (JDict kvs')"
    by (simp add: manifest_update_dict k)
  from set_version_steps [where jl = jl and jd = jd and pv = pv and rt = rt, OF f l u]
  obtain w4 where
    s: "set_version jl jd pv (Some v) rt w = set_academy_version_string (v @ ''-preview'') w4"
    and f4: "files w4 UNITY_PACKAGE_JSON_PATH = Some (jd 2 (JDict kvs'))"
    by auto
  from set_academy_version_string_files [of UNITY_PACKAGE_JSON_PATH "v @ ''-preview''" w4]
  show "files (snd (set_version jl jd pv (Some v) rt w)) UNITY_PACKAGE_JSON_PATH
       = Some (jd 2 (JDict kvs'))"
    using s f4 academy_not_manifest by simp
  from set_package_version_ok [where jl = jl and jd = jd, OF f l u]
  show "fst (set_package_version jl jd (v @ ''-preview'') w) = Inr ()" by simp
  show "map fst kvs' = map fst kvs"
    by (auto simp: k update_keys)
  show "files (snd (set_version jl jd pv None rt w)) UNITY_PACKAGE_JSON_PATH = Some mraw"
    using f by (simp add: set_version_def Let_def set_version_loop_manifest)
next
  fix key :: string
  assume "kvs' = (if ''version'' \<in> set (map fst kvs)
           then AList.update ''version'' (JStr (v @ ''-preview'')) kvs else kvs)"
    and "key \<noteq> ''version''"
  then show "map_of kvs' key = map_of kvs key"
    by (simp add: update_conv')
next
  assume "kvs' = (if ''version'' \<in> set (map fst kvs)
           then AList.update ''version'' (JStr (v @ ''-preview'')) kvs else kvs)"
    and "''version'' \<in> set (map fst kvs)"
  then show "map_of kvs' ''version'' = Some (JStr (v @ ''-preview''))"
    by (simp add: update_conv')
next
  assume "kvs' = (if ''version'' \<in> set (map fst kvs)
           then AList.update ''version'' (JStr (v @ ''-preview'')) kvs else kvs)"
    and "''version'' \<notin> set (map fst kvs)"
  then show "kvs' = kvs" by simp
qed

text \<open>The theorem at a manifest with a name and a version, for native version \<^verbatim>\<open>1.0.0\<close>.\<close>

theorem set_version_manifest_witness:
  "files release_world UNITY_PACKAGE_JSON_PATH
     = Some ''{\"name\": \"com.unity.ml-agents\", \"version\": \"0.15.0-preview\"}''
   \<and> demo_json_load (universal_newlines
         ''{\"name\": \"com.unity.ml-agents\", \"version\": \"0.15.0-preview\"}'')
       = Inr (JDict [(''name'', JStr ''com.unity.ml-agents''),
                     (''version'', JStr ''0.15.0-preview'')])
   \<and> files (snd (set_version demo_json_load demo_json_dump (Some ''0.16.0'') (Some ''1.0.0'')
                    None release_world)) UNITY_PACKAGE_JSON_PATH
       = Some ''{\<newline>  \"name\": \"com.unity.ml-agents\",\<newline>  \"version\": \"1.0.0-preview\"\<newline>}''"
proof -
  have f: "files release_world UNITY_PACKAGE_JSON_PATH
     = Some ''{\"name\": \"com.unity.ml-agents\", \"version\": \"0.15.0-preview\"}''"
    by (simp add: release_world_def UNITY_PACKAGE_JSON_PATH_def)
  have l: "demo_json_load (universal_newlines
         ''{\"name\": \"com.unity.ml-agents\", \"version\": \"0.15.0-preview\"}'')
       = Inr (JDict [(''name'', JStr ''com.unity.ml-agents''),
                     (''version'', JStr ''0.15.0-preview'')])"
    by (simp add: demo_json_load_def)
  have k: "[(''name'', JStr ''com.unity.ml-agents''), (''version'', JStr ''1.0.0-preview'')]
     = (if ''version'' \<in> set (map fst [(''name'', JStr ''com.unity.ml-agents''),
                     (''version'', JStr ''0.15.0-preview'')])
           then AList.update ''version'' (JStr (''1.0.0'' @ ''-preview''))
                  [(''name'', JStr ''com.unity.ml-agents''),
                   (''version'', JStr ''0.15.0-preview'')]
           else [(''name'', JStr ''com.unity.ml-agents''),
                 (''version'', JStr ''0.15.0-preview'')])"
    by simp
  from set_version_manifest
    [where jl = demo_json_load and jd = demo_json_dump and pv = "Some ''0.16.0''"
       and rt = None, OF f l k] f l
  show ?thesis by (simp add: demo_json_dump_def)
qed

section \<open>The count of the marker lines\<close>

text \<open>
  Claim C3 at a native source file with the marker in two lines, the first of them
  a comment without \<^verbatim>\<open>" = "\<close>. The count of the marker lines is two, yet the step on
  the native source file does not reach its test of the count: unpacking the split
  of the first marker line raises \<^verbatim>\<open>ValueError\<close>, which carries neither the marker
  nor the count, and \<open>set_version\<close> ends with it. The native source file keeps its
  content; the manifest and the component version files hold what the earlier steps
  wrote.
\<close>

theorem set_version_marker_count_unpack:
  "files comment_marker_world ACADEMY_PATH = Some ''// see internal const string k_PackageVersion\<newline>internal const string k_PackageVersion = \"0.15.0\";\<newline>''
   \<and> marker_count (readlines (universal_newlines ''// see internal const string k_PackageVersion\<newline>internal const string k_PackageVersion = \"0.15.0\";\<newline>'')) = 2
   \<and> fst (set_academy_version_string ''1.0.0-preview'' comment_marker_world) = Inl ValueError
   \<and> fst (set_version demo_json_load demo_json_dump (Some ''0.16.0'') (Some ''1.0.0'') None
             comment_marker_world)
       = Inl ValueError
   \<and> files (snd (set_version demo_json_load demo_json_dump (Some ''0.16.0'') (Some ''1.0.0'')
                    None comment_marker_world)) ACADEMY_PATH
       = Some ''// see internal const string k_PackageVersion\<newline>internal const string k_PackageVersion = \"0.15.0\";\<newline>''
   \<and> files (snd (set_version demo_json_load demo_json_dump (Some ''0.16.0'') (Some ''1.0.0'')
                    None comment_marker_world)) UNITY_PACKAGE_JSON_PATH
       = Some ''{\<newline>  \"name\": \"com.unity.ml-agents\",\<newline>  \"version\": \"1.0.0-preview\"\<newline>}''
   \<and> files (snd (set_version demo_json_load demo_json_dump (Some ''0.16.0'') (Some ''1.0.0'')
                    None comment_marker_world)) ''ml-agents/mlagents/trainers/__init__.py''
       = Some ''\<newline># Version of the library that will be used to upload to pypi\<newline>__version__ = \"0.16.0\"\<newline>\<newline># Git tag that will be checked to determine whether to trigger upload to pypi\<newline>__release_tag__ = None\<newline>''
   \<and> files (snd (set_version demo_json_load demo_json_dump (Some ''0.16.0'') (Some ''1.0.0'')
                    None comment_marker_world)) ''ml-agents-envs/mlagents_envs/__init__.py''
       = Some ''\<newline># Version of the library that will be used to upload to pypi\<newline>__version__ = \"0.16.0\"\<newline>\<newline># Git tag that will be checked to determine whether to trigger upload to pypi\<newline>__release_tag__ = None\<newline>''
   \<and> files (snd (set_version demo_json_load demo_json_dump (Some ''0.16.0'') (Some ''1.0.0'')
                    None comment_marker_world)) ''gym-unity/gym_unity/__init__.py''
       = Some ''\<newline># Version of the library that will be used to upload to pypi\<newline>__version__ = \"0.16.0\"\<newline>\<newline># Git tag that will be checked to determine whether to trigger upload to pypi\<newline>__release_tag__ = None\<newline>''"
  by code_simp

section \<open>The rewritten line of the native source file\<close>




section \<open>Running the Version Writer twice\<close>

text \<open>
  Claim C6, as amended. Let the component version files exist and let a first run
  of \<open>set_version\<close> succeed. After a second run with the same arguments, whether it
  succeeds or raises: every component version file holds what the first run left;
  the manifest holds what the first run left, provided \<^verbatim>\<open>json.load\<close> reads back from
  the manifest the value that \<^verbatim>\<open>json.dump\<close> wrote there; and the native source file
  holds what the first run left, provided the native version contains neither a
  line feed nor a carriage return.
\<close>

theorem set_version_twice:
  assumes "\<forall>d\<in>set DIRECTORIES. files w (os_path_join d ''__init__.py'') \<noteq> None"
    and "set_version jl jd pv cv rt w = (Inr (), w1)"
  shows "(\<forall>d\<in>set DIRECTORIES.
            files (snd (set_version jl jd pv cv rt w1)) (os_path_join d ''__init__.py'')
              = files w1 (os_path_join d ''__init__.py''))
     \<and> ((\<forall>j'. files w1 UNITY_PACKAGE_JSON_PATH = Some (jd 2 j')
                 \<longrightarrow> jl (universal_newlines (jd 2 j')) = Inr j')
          \<longrightarrow> files (snd (set_version jl jd pv cv rt w1)) UNITY_PACKAGE_JSON_PATH
                = files w1 UNITY_PACKAGE_JSON_PATH)
     \<and> ((\<forall>v. cv = Some v \<longrightarrow> CHR 0x0A \<notin> set v \<and> CHR 0x0D \<notin> set v)
          \<longrightarrow> files (snd (set_version jl jd pv cv rt w1)) ACADEMY_PATH
                = files w1 ACADEMY_PATH)"
proof (intro conjI ballI impI)
  fix d assume d: "d \<in> set DIRECTORIES"
  from assms(2) have "w1 = snd (set_version jl jd pv cv rt w)" by simp
  with d show "files (snd (set_version jl jd pv cv rt w1)) (os_path_join d ''__init__.py'')
              = files w1 (os_path_join d ''__init__.py'')"
    by (simp add: set_version_init_files)
next
  assume rt: "\<forall>j'. files w1 UNITY_PACKAGE_JSON_PATH = Some (jd 2 j')
                 \<longrightarrow> jl (universal_newlines (jd 2 j')) = Inr j'"
  from set_version_manifest_cases [of jl jd pv cv rt w1]
  show "files (snd (set_version jl jd pv cv rt w1)) UNITY_PACKAGE_JSON_PATH
                = files w1 UNITY_PACKAGE_JSON_PATH"
  proof
    assume "\<exists>v mraw j j'. cv = Some v
         \<and> files w1 UNITY_PACKAGE_JSON_PATH = Some mraw
         \<and> jl (universal_newlines mraw) = Inr j
         \<and> manifest_update j (v @ ''-preview'') = Inr j'
         \<and> files (snd (set_version jl jd pv cv rt w1)) UNITY_PACKAGE_JSON_PATH
             = Some (jd 2 j')"
    then obtain v mraw1 j1 j1' where cv: "cv = Some v"
      and m1: "files w1 UNITY_PACKAGE_JSON_PATH = Some mraw1"
        "jl (universal_newlines mraw1) = Inr j1"
        "manifest_update j1 (v @ ''-preview'') = Inr j1'"
      and f2: "files (snd (set_version jl jd pv cv rt w1)) UNITY_PACKAGE_JSON_PATH
             = Some (jd 2 j1')"
      by blast
    from set_version_success [OF assms(2) [unfolded cv]] obtain j j' where
      u: "manifest_update j (v @ ''-preview'') = Inr j'"
      and f1: "files w1 UNITY_PACKAGE_JSON_PATH = Some (jd 2 j')"
      by blast
    from rt f1 have "jl (universal_newlines (jd 2 j')) = Inr j'" by blast
    with m1(1,2) f1 have "j1 = j'" by simp
    with m1(3) manifest_update_idem [OF u] have "j1' = j'" by simp
    with f1 f2 show ?thesis by simp
  qed
next
  assume nb: "\<forall>v. cv = Some v \<longrightarrow> CHR 0x0A \<notin> set v \<and> CHR 0x0D \<notin> set v"
  from set_version_academy_cases [of jl jd pv cv rt w1]
  show "files (snd (set_version jl jd pv cv rt w1)) ACADEMY_PATH = files w1 ACADEMY_PATH"
  proof
    assume "\<exists>v araw ls. cv = Some v
         \<and> files w1 ACADEMY_PATH = Some araw
         \<and> academy_loop (v @ ''-preview'') (readlines (universal_newlines araw)) = Inr (ls, 1)
         \<and> files (snd (set_version jl jd pv cv rt w1)) ACADEMY_PATH = Some (concat ls)"
    then obtain v araw1 ls2 where cv: "cv = Some v"
      and a1: "files w1 ACADEMY_PATH = Some araw1"
      and l2: "academy_loop (v @ ''-preview'') (readlines (universal_newlines araw1))
                 = Inr (ls2, 1)"
      and f2: "files (snd (set_version jl jd pv cv rt w1)) ACADEMY_PATH = Some (concat ls2)"
      by blast
    from set_version_success [OF assms(2) [unfolded cv]] obtain araw ls1 where
      l1: "academy_loop (v @ ''-preview'') (readlines (universal_newlines araw)) = Inr (ls1, 1)"
      and f1: "files w1 ACADEMY_PATH = Some (concat ls1)"
      by blast
    from nb cv have "CHR 0x0A \<notin> set (v @ ''-preview'')" "CHR 0x0D \<notin> set (v @ ''-preview'')"
      by simp_all
    from academy_loop_reread [OF l1 this]
    have "readlines (universal_newlines (concat ls1)) = ls1" .
    with a1 f1 l2 have "academy_loop (v @ ''-preview'') ls1 = Inr (ls2, 1)" by simp
    from academy_loop_idem [OF l1 this] f1 f2 show ?thesis by simp
  qed
qed

text \<open>
  The theorem at Python version \<^verbatim>\<open>0.16.0\<close> and native version \<^verbatim>\<open>1.0.0\<close>: the manifest and
  the native source file after the first run, and the five files after the second.
\<close>

theorem set_version_twice_witness:
  "fst (set_version demo_json_load demo_json_dump (Some ''0.16.0'') (Some ''1.0.0'') None
          release_world) = Inr ()
   \<and> files (snd (set_version demo_json_load demo_json_dump (Some ''0.16.0'') (Some ''1.0.0'')
                    None release_world)) UNITY_PACKAGE_JSON_PATH
       = Some ''{\<newline>  \"name\": \"com.unity.ml-agents\",\<newline>  \"version\": \"1.0.0-preview\"\<newline>}''
   \<and> files (snd (set_version demo_json_load demo_json_dump (Some ''0.16.0'') (Some ''1.0.0'')
                    None release_world)) ACADEMY_PATH
       = Some ''// Academy\<newline>    internal const string k_PackageVersion = \"1.0.0-preview\";\<newline>}\<newline>''
   \<and> files (snd (set_version demo_json_load demo_json_dump (Some ''0.16.0'') (Some ''1.0.0'')
                    None
                    (snd (set_version demo_json_load demo_json_dump (Some ''0.16.0'')
                            (Some ''1.0.0'') None release_world))))
         ''ml-agents/mlagents/trainers/__init__.py''
       = files (snd (set_version demo_json_load demo_json_dump (Some ''0.16.0'')
                       (Some ''1.0.0'') None release_world))
           ''ml-agents/mlagents/trainers/__init__.py''
   \<and> files (snd (set_version demo_json_load demo_json_dump (Some ''0.16.0'') (Some ''1.0.0'')
                    None
                    (snd (set_version demo_json_load demo_json_dump (Some ''0.16.0'')
                            (Some ''1.0.0'') None release_world))))
         ''ml-agents-envs/mlagents_envs/__init__.py''
       = files (snd (set_version demo_json_load demo_json_dump (Some ''0.16.0'')
                       (Some ''1.0.0'') None release_world))
           ''ml-agents-envs/mlagents_envs/__init__.py''
   \<and> files (snd (set_version demo_json_load demo_json_dump (Some ''0.16.0'') (Some ''1.0.0'')
                    None
                    (snd (set_version demo_json_load demo_json_dump (Some ''0.16.0'')
                            (Some ''1.0.0'') None release_world))))
         ''gym-unity/gym_unity/__init__.py''
       = files (snd (set_version demo_json_load demo_json_dump (Some ''0.16.0'')
                       (Some ''1.0.0'') None release_world))
           ''gym-unity/gym_unity/__init__.py''
   \<and> files (snd (set_version demo_json_load demo_json_dump (Some ''0.16.0'') (Some ''1.0.0'')
                    None
                    (snd (set_version demo_json_load demo_json_dump (Some ''0.16.0'')
                            (Some ''1.0.0'') None release_world))))
         UNITY_PACKAGE_JSON_PATH
       = Some ''{\<newline>  \"name\": \"com.unity.ml-agents\",\<newline>  \"version\": \"1.0.0-preview\"\<newline>}''
   \<and> files (snd (set_version demo_json_load demo_json_dump (Some ''0.16.0'') (Some ''1.0.0'')
                    None
                    (snd (set_version demo_json_load demo_json_dump (Some ''0.16.0'')
                            (Some ''1.0.0'') None release_world))))
         ACADEMY_PATH
       = Some ''// Academy\<newline>    internal const string k_PackageVersion = \"1.0.0-preview\";\<newline>}\<newline>''"
proof -
  let ?w1 = "snd (set_version demo_json_load demo_json_dump (Some ''0.16.0'') (Some ''1.0.0'')
                    None release_world)"
  have e: "\<forall>d\<in>set DIRECTORIES.
             files release_world (os_path_join d ''__init__.py'') \<noteq> None"
    by (simp add: DIRECTORIES_def release_world_def os_path_join_def startswith_def)
  have r0: "fst (set_version demo_json_load demo_json_dump (Some ''0.16.0'') (Some ''1.0.0'')
                   None release_world) = Inr ()"
    by code_simp
  then have r: "set_version demo_json_load demo_json_dump (Some ''0.16.0'') (Some ''1.0.0'')
                   None release_world = (Inr (), ?w1)"
    by (simp add: prod_eq_iff)
  have m1: "files ?w1 UNITY_PACKAGE_JSON_PATH
       = Some ''{\<newline>  \"name\": \"com.unity.ml-agents\",\<newline>  \"version\": \"1.0.0-preview\"\<newline>}''"
    by code_simp
  have a1: "files ?w1 ACADEMY_PATH
       = Some ''// Academy\<newline>    internal const string k_PackageVersion = \"1.0.0-preview\";\<newline>}\<newline>''"
    by code_simp
  have rt: "\<forall>j'. files ?w1 UNITY_PACKAGE_JSON_PATH = Some (demo_json_dump 2 j')
              \<longrightarrow> demo_json_load (universal_newlines (demo_json_dump 2 j')) = Inr j'"
    unfolding m1 by (auto simp: demo_json_dump_def demo_json_load_def split: if_splits)
  have nb: "\<forall>v. Some ''1.0.0'' = Some v \<longrightarrow> CHR 0x0A \<notin> set v \<and> CHR 0x0D \<notin> set v"
    by simp
  from set_version_twice [OF e r] rt nb r0 m1 a1
  show ?thesis
    by (simp add: DIRECTORIES_def os_path_join_def startswith_def)
qed

text \<open>
  Claim C6 as written fails for a native version with a line feed in it. The first
  run writes the version into the marker line, which thereby becomes two lines; the
  second run rewrites the first of them and keeps the second, so the native source
  file grows by a line. Both runs succeed.
\<close>

theorem set_version_twice_counterexample:
  "fst (set_version demo_json_load demo_json_dump (Some ''0.16.0'') (Some ''1\<newline>2'') None
          bare_manifest_world) = Inr ()
   \<and> files (snd (set_version demo_json_load demo_json_dump (Some ''0.16.0'')
                    (Some ''1\<newline>2'') None bare_manifest_world)) ACADEMY_PATH
       = Some ''internal const string k_PackageVersion = \"1\<newline>2-preview\";\<newline>''
   \<and> fst (set_version demo_json_load demo_json_dump (Some ''0.16.0'') (Some ''1\<newline>2'') None
          (snd (set_version demo_json_load demo_json_dump (Some ''0.16.0'')
                  (Some ''1\<newline>2'') None bare_manifest_world))) = Inr ()
   \<and> files (snd (set_version demo_json_load demo_json_dump (Some ''0.16.0'')
                    (Some ''1\<newline>2'') None
                    (snd (set_version demo_json_load demo_json_dump (Some ''0.16.0'')
                            (Some ''1\<newline>2'') None bare_manifest_world)))) ACADEMY_PATH
       = Some ''internal const string k_PackageVersion = \"1\<newline>2-preview\";\<newline>2-preview\";\<newline>''"
  by code_simp

section \<open>The command line\<close>

lemma main_write_mode:
  "truthy (python_version a) \<Longrightarrow>
     \<exists>w2. snd (main jl jd a w)
            = snd (set_version jl jd (python_version a) (csharp_version a) (release_tag a) w2)"
proof -
  assume t: "truthy (python_version a)"
  define w2 where "w2 = (if truthy (csharp_version a)
                     then print (''Updating C# package to version ''
                                   @ str_of_opt (csharp_version a))
                            (print (''Updating python library to version ''
                                      @ str_of_opt (python_version a)) w)
                   else print (''Updating python library to version ''
                                 @ str_of_opt (python_version a)) w)"
  obtain r w3 where sv:
    "set_version jl jd (python_version a) (csharp_version a) (release_tag a) w2 = (r, w3)"
    by (cases "set_version jl jd (python_version a) (csharp_version a) (release_tag a) w2")
  have "main jl jd a w = (case (r, w3) of
              (Inl e, w3) \<Rightarrow> (Uncaught e, w3)
            | (Inr u, w3) \<Rightarrow> (Exit 0, w3))"
    unfolding main_def Let_def using t sv by (simp only: w2_def [symmetric] if_True)
  then have "snd (main jl jd a w) = w3" by (cases r) simp_all
  with sv show ?thesis by (metis snd_conv)
qed

text \<open>
  Claim C10. The script tests the truth value of the Python version. With the empty
  string it does what it does with no Python version: it runs \<open>check_versions\<close>,
  writes no file and, when the component version files exist, ends with exit status
  0 or 1. With a non-empty string it runs \<open>set_version\<close>, which leaves the template
  in every component version file. And a run that changes any file had a non-empty
  Python version.
\<close>

theorem main_mode_dispatch:
  "(python_version a = Some '''' \<longrightarrow>
      main jl jd a w = main jl jd (a\<lparr>python_version := None\<rparr>) w
      \<and> main jl jd a w =
          (case check_versions w of
             (Inl e, w1) \<Rightarrow> (Uncaught e, w1)
           | (Inr ok, w1) \<Rightarrow> (Exit (if ok then 0 else 1), w1))
      \<and> files (snd (main jl jd a w)) = files w
      \<and> ((\<forall>d\<in>set DIRECTORIES. files w (os_path_join d ''__init__.py'') \<noteq> None)
            \<longrightarrow> fst (main jl jd a w) = Exit 0 \<or> fst (main jl jd a w) = Exit 1))
   \<and> (\<forall>s. python_version a = Some s \<and> s \<noteq> [] \<longrightarrow>
         (\<forall>d\<in>set DIRECTORIES.
            files (snd (main jl jd a w)) (os_path_join d ''__init__.py'')
              = Some (PYTHON_VERSION_FILE_TEMPLATE
                        (escape_non_none (Some s)) (escape_non_none (release_tag a)))))
   \<and> (files (snd (main jl jd a w)) \<noteq> files w
         \<longrightarrow> (\<exists>s. python_version a = Some s \<and> s \<noteq> []))"
proof (intro conjI impI allI)
  assume e: "python_version a = Some ''''"
  then show "main jl jd a w = main jl jd (a\<lparr>python_version := None\<rparr>) w"
    by (simp add: main_def)
  from e show m: "main jl jd a w =
          (case check_versions w of
             (Inl e, w1) \<Rightarrow> (Uncaught e, w1)
           | (Inr ok, w1) \<Rightarrow> (Exit (if ok then 0 else 1), w1))"
    by (simp add: main_def)
  obtain r w1 where c: "check_versions w = (r, w1)" by (cases "check_versions w")
  with check_versions_files [of w] have f: "files w1 = files w" by simp
  from m c f show "files (snd (main jl jd a w)) = files w"
    by (cases r) simp_all
  assume ex: "\<forall>d\<in>set DIRECTORIES. files w (os_path_join d ''__init__.py'') \<noteq> None"
  define tok where "tok d = (case fst (extract_version_string (os_path_join d ''__init__.py'') w)
                             of Inr v \<Rightarrow> v | Inl e \<Rightarrow> None)" for d
  have "\<forall>d\<in>set DIRECTORIES.
          fst (extract_version_string (os_path_join d ''__init__.py'') w) = Inr (tok d)"
    using ex by (auto simp: tok_def extract_version_string_files)
  from check_versions_result(1) [OF this] c obtain b where "r = Inr b" by simp
  with m c show "fst (main jl jd a w) = Exit 0 \<or> fst (main jl jd a w) = Exit 1"
    by simp
next
  fix s
  assume h: "python_version a = Some s \<and> s \<noteq> []"
  show "\<forall>d\<in>set DIRECTORIES.
            files (snd (main jl jd a w)) (os_path_join d ''__init__.py'')
              = Some (PYTHON_VERSION_FILE_TEMPLATE
                        (escape_non_none (Some s)) (escape_non_none (release_tag a)))"
  proof
    fix d
    assume d: "d \<in> set DIRECTORIES"
    from h have "truthy (python_version a)" by simp
    from main_write_mode [OF this, of jl jd w] h obtain w2 where
      "snd (main jl jd a w)
         = snd (set_version jl jd (Some s) (csharp_version a) (release_tag a) w2)"
      by auto
    moreover note set_version_init_files
      [OF d, of jl jd "Some s" "csharp_version a" "release_tag a" w2]
    ultimately show "files (snd (main jl jd a w)) (os_path_join d ''__init__.py'')
              = Some (PYTHON_VERSION_FILE_TEMPLATE
                        (escape_non_none (Some s)) (escape_non_none (release_tag a)))"
      by simp
  qed
next
  assume ch: "files (snd (main jl jd a w)) \<noteq> files w"
  show "\<exists>s. python_version a = Some s \<and> s \<noteq> []"
  proof (rule ccontr)
    assume "\<not> (\<exists>s. python_version a = Some s \<and> s \<noteq> [])"
    then have nt: "\<not> truthy (python_version a)"
      by (cases "python_version a") auto
    obtain r w1 where c: "check_versions w = (r, w1)" by (cases "check_versions w")
    with check_versions_files [of w] have f: "files w1 = files w" by simp
    from nt c f have "files (snd (main jl jd a w)) = files w"
      by (cases r) (simp_all add: main_def)
    with ch show False by simp
  qed
qed

text \<open>The theorem at the empty Python version, on three consistent version files.\<close>

theorem main_mode_dispatch_witness:
  "python_version empty_version_args = Some ''''
   \<and> files consistent_world ''ml-agents/mlagents/trainers/__init__.py'' \<noteq> None
   \<and> files consistent_world ''ml-agents-envs/mlagents_envs/__init__.py'' \<noteq> None
   \<and> files consistent_world ''gym-unity/gym_unity/__init__.py'' \<noteq> None
   \<and> files (snd (main no_json_load no_json_dump empty_version_args consistent_world))
       = files consistent_world
   \<and> (fst (main no_json_load no_json_dump empty_version_args consistent_world) = Exit 0
      \<or> fst (main no_json_load no_json_dump empty_version_args consistent_world) = Exit 1)"
proof -
  have p: "python_version empty_version_args = Some ''''"
    by (simp add: empty_version_args_def)
  have f: "\<forall>d\<in>set DIRECTORIES.
             files consistent_world (os_path_join d ''__init__.py'') \<noteq> None"
    by (simp add: DIRECTORIES_def consistent_world_def os_path_join_def startswith_def)
  from main_mode_dispatch [of empty_version_args no_json_load no_json_dump consistent_world] p f
  have "files (snd (main no_json_load no_json_dump empty_version_args consistent_world))
       = files consistent_world
   \<and> (fst (main no_json_load no_json_dump empty_version_args consistent_world) = Exit 0
      \<or> fst (main no_json_load no_json_dump empty_version_args consistent_world) = Exit 1)"
    by blast
  moreover have "files consistent_world ''ml-agents/mlagents/trainers/__init__.py'' \<noteq> None
   \<and> files consistent_world ''ml-agents-envs/mlagents_envs/__init__.py'' \<noteq> None
   \<and> files consistent_world ''gym-unity/gym_unity/__init__.py'' \<noteq> None"
    by (simp add: consistent_world_def)
  ultimately show ?thesis using p by blast
qed

end
